theory Spec2Isabelle
  imports Complex_Main
begin

section \<open>Tensors, errors and indexing\<close>

text \<open>
  The model file \<^verbatim>\<open>model_clean.py\<close> computes on PyTorch tensors. A tensor is modelled
  as a nested list, outermost axis first: a tensor of shape (n, bs) is a list of n rows of
  length bs. Floating-point entries are idealised as real numbers; integer entries
  (symbol ids, pointers) are \<open>int\<close>. Every assertion failure and every exception of the
  source is a value of type \<open>error\<close>, returned as \<open>Inl\<close>.
\<close>

datatype error = AssertionError | IndexError | RuntimeError | ValueError | OverflowError
  | ZeroDivisionError

fun sequence :: "(error + 'a) list \<Rightarrow> error + 'a list" where
  "sequence [] = Inr []"
| "sequence (Inl e # _) = Inl e"
| "sequence (Inr x # rs) = (case sequence rs of Inl e \<Rightarrow> Inl e | Inr xs \<Rightarrow> Inr (x # xs))"

definition size1 :: "'a list list \<Rightarrow> nat" where
  \<comment> \<open>\<^verbatim>\<open>t.size(1)\<close> of a tensor with a non-empty leading axis\<close>
  "size1 t = (case t of [] \<Rightarrow> 0 | r # _ \<Rightarrow> length r)"

definition rect :: "nat \<Rightarrow> 'a list list \<Rightarrow> bool" where
  \<comment> \<open>every row has length \<open>bs\<close>: the nested list is a tensor of shape (n, bs)\<close>
  "rect bs t = list_all (\<lambda>r. length r = bs) t"

definition py_index :: "nat \<Rightarrow> int \<Rightarrow> error + nat" where
  \<comment> \<open>an index into an axis of size \<open>n\<close>: negative indices count from the end,
      anything outside \<open>[-n, n)\<close> raises IndexError\<close>
  "py_index n i =
     (let j = (if i < 0 then int n + i else i)
      in if 0 \<le> j \<and> j < int n then Inr (nat j) else Inl IndexError)"

section \<open>fancy\_gather\<close>

text \<open>
  \<^verbatim>\<open>
  def fancy_gather(value, index):
      assert value.size(1) == index.size(1)
      split = zip(value.split(1, dim=1), index.split(1, dim=1))
      return torch.cat([v[i.view(-1)] for v, i in split], dim=1)
  \<close>
  \<open>split1\<close> cuts a tensor into its single-column chunks along axis 1, \<open>take_rows v i\<close>
  is \<^verbatim>\<open>v[i.view(-1)]\<close> on one chunk, \<open>cat1\<close> puts the gathered chunks side by side again.
\<close>

definition split1 :: "'a list list \<Rightarrow> 'a list list" where
  "split1 t = map (\<lambda>b. map (\<lambda>r. r ! b) t) [0..<size1 t]"

definition take_rows :: "'a list \<Rightarrow> int list \<Rightarrow> error + 'a list" where
  "take_rows v i =
     sequence (map (\<lambda>k. case py_index (length v) k of
                              Inl e \<Rightarrow> Inl e
                            | Inr j \<Rightarrow> Inr (v ! j)) i)"

definition cat1 :: "'a list list \<Rightarrow> 'a list list" where
  "cat1 cols =
     (case cols of [] \<Rightarrow> []
      | c # _ \<Rightarrow> map (\<lambda>k. map (\<lambda>col. col ! k) cols) [0..<length c])"

definition fancy_gather :: "'a list list \<Rightarrow> int list list \<Rightarrow> error + 'a list list" where
  "fancy_gather val index =
     (if size1 val \<noteq> size1 index then Inl AssertionError
      else case sequence (map (\<lambda>(v, i). take_rows v i) (zip (split1 val) (split1 index))) of
             Inl e \<Rightarrow> Inl e
           | Inr cols \<Rightarrow> Inr (cat1 cols))"

definition norm_index :: "nat \<Rightarrow> int \<Rightarrow> nat" where
  \<comment> \<open>the row a valid index selects\<close>
  "norm_index n i = nat (if i < 0 then int n + i else i)"

definition valid_index :: "nat \<Rightarrow> int \<Rightarrow> bool" where
  "valid_index n i = (- int n \<le> i \<and> i < int n)"

section \<open>HardMonoTransducer.decode: the alignment pointer\<close>

text \<open>
  \<^verbatim>\<open>
  attn_pos = torch.zeros((1, trg_bat_siz), dtype=torch.long, device=DEVICE)
  ...
  hidden = self.dec_rnn.get_init_hx(trg_bat_siz)
  for idx in range(trg_seq_len - 1):
      for j in range(trg_bat_siz):
          if trg_batch[idx, j] == STEP_IDX:
              attn_pos[0, j] += 1
      input_ = trg_embed[idx, :]
      word_logprob, hidden, _ = self.decode_step(enc_hs, enc_mask, input_, hidden, attn_pos)
      output += [word_logprob]
  return torch.stack(output)
  \<close>
  \<open>STEP_IDX\<close> is imported from the data loader, so it is a parameter. The pointer row
  \<open>attn_pos[0]\<close> is an \<open>int list\<close> (it is incremented at most once per target row,
  so the 64-bit range is never left). The decode step is a parameter \<open>ds\<close>: it receives
  the loop index (which fixes \<open>input_ = trg_embed[idx]\<close>), the pointer row and the hidden
  state, and returns the step's output and the next hidden state, or raises.
\<close>

fun scan_steps :: "int \<Rightarrow> int list \<Rightarrow> nat list \<Rightarrow> int list \<Rightarrow> int list" where
  \<comment> \<open>the inner loop over \<open>j\<close>\<close>
  "scan_steps STEP row [] pos = pos"
| "scan_steps STEP row (j # js) pos =
     scan_steps STEP row js (if row ! j = STEP then pos[j := pos ! j + 1] else pos)"

fun hm_decode_loop ::
  "(nat \<Rightarrow> int list \<Rightarrow> 'h \<Rightarrow> error + 'o \<times> 'h) \<Rightarrow> int \<Rightarrow> int list list \<Rightarrow> nat \<Rightarrow>
   nat list \<Rightarrow> int list \<Rightarrow> 'h \<Rightarrow> 'o list \<Rightarrow> error + 'o list" where
  "hm_decode_loop ds STEP trg bs [] pos h out = Inr out"
| "hm_decode_loop ds STEP trg bs (idx # idxs) pos h out =
     (let pos' = scan_steps STEP (trg ! idx) [0..<bs] pos
      in case ds idx pos' h of
           Inl e \<Rightarrow> Inl e
         | Inr (w, h') \<Rightarrow> hm_decode_loop ds STEP trg bs idxs pos' h' (out @ [w]))"

definition torch_stack :: "'a list \<Rightarrow> error + 'a list" where
  \<comment> \<open>\<^verbatim>\<open>torch.stack\<close> refuses an empty list of tensors\<close>
  "torch_stack xs = (if xs = [] then Inl RuntimeError else Inr xs)"

definition hm_decode ::
  "(nat \<Rightarrow> int list \<Rightarrow> 'h \<Rightarrow> error + 'o \<times> 'h) \<Rightarrow> int \<Rightarrow> (nat \<Rightarrow> 'h) \<Rightarrow> int list list \<Rightarrow>
   error + 'o list" where
  "hm_decode ds STEP get_init_hx trg =
     (let trg_seq_len = length trg;
          trg_bat_siz = size1 trg;
          attn_pos = replicate trg_bat_siz 0;
          hidden = get_init_hx trg_bat_siz
      in case hm_decode_loop ds STEP trg trg_bat_siz [0..<trg_seq_len - 1] attn_pos hidden [] of
           Inl e \<Rightarrow> Inl e
         | Inr output \<Rightarrow> torch_stack output)"

definition steps_before :: "int \<Rightarrow> int list list \<Rightarrow> nat \<Rightarrow> nat \<Rightarrow> int" where
  \<comment> \<open>the number of STEP symbols of example \<open>j\<close> strictly before target position \<open>i\<close>\<close>
  "steps_before STEP trg j i = int (length (filter (\<lambda>t. trg ! t ! j = STEP) [0..<i]))"

fun feed ::
  "(nat \<Rightarrow> int list \<Rightarrow> 'h \<Rightarrow> error + 'o \<times> 'h) \<Rightarrow> (nat \<times> int list) list \<Rightarrow> 'h \<Rightarrow> 'o list \<Rightarrow>
   error + 'o list" where
  \<comment> \<open>runs the decode step on a prescribed list of (index, pointer row) arguments\<close>
  "feed ds [] h out = Inr out"
| "feed ds ((idx, pos) # rest) h out =
     (case ds idx pos h of
        Inl e \<Rightarrow> Inl e
      | Inr (w, h') \<Rightarrow> feed ds rest h' (out @ [w]))"

definition ptr_row :: "int \<Rightarrow> int list list \<Rightarrow> nat \<Rightarrow> nat \<Rightarrow> int list" where
  \<comment> \<open>the pointer row after the STEP symbols of target rows \<open>0..<i\<close> have been counted\<close>
  "ptr_row STEP trg bs i = map (\<lambda>j. steps_before STEP trg j i) [0..<bs]"

section \<open>HardMonoTransducer.cal\_hs\<close>

text \<open>
  \<^verbatim>\<open>
  def cal_hs(self, *, layer, ed, od, vs, hs, ht):
      b = ed + 2 * hs + 2 + vs / 4
      if self.nb_attr > 0: b += ed
      c = ed * ed * self.nb_attr + ed - od * (od + vs + 1) - \
          ht * (2 * hs + 4 * ht + 4 * ed + 1 + 4 * 2)
      c /= 4
      if layer > 1:
          c -= (layer - 1) * (2 * ht**2 + 2 * ht)
          b += (layer - 1) * 2
          b /= (layer * 2 - 1)
          c /= (layer * 2 - 1)
      return round((math.sqrt(b * b - 4 * c) - b) / 2)
  \<close>
  The arguments are Python integers (unbounded, \<open>int\<close>); \<^verbatim>\<open>/\<close> is true division, so
  \<open>b\<close> and \<open>c\<close> are Python floats, that is IEEE 754 binary64 numbers. They are modelled
  as such: a \<open>double\<close> is a real number that binary64 represents, an infinity or a NaN,
  and every operation rounds its exact result to the nearest representable number, a tie
  going to the even significand. The two zeros of binary64 are one value \<open>Num 0\<close> here: they
  differ only in the sign of a quotient by zero, which Python refuses with ZeroDivisionError
  before dividing, and \<^verbatim>\<open>round\<close> maps both to the integer 0.
\<close>

definition py_round :: "real \<Rightarrow> int" where
  "py_round x =
     (let f = \<lfloor>x\<rfloor>; d = x - of_int f
      in if d < 1 / 2 then f
         else if 1 / 2 < d then f + 1
         else if even f then f else f + 1)"

datatype double = Num real | PlusInf | MinusInf | NotANumber

text \<open>
  Rounding to binary64. A non-zero real \<open>x\<close> with \<open>2 ^ e \<le> \<bar>x\<bar> < 2 ^ (e + 1)\<close> lies in the
  binade of exponent \<open>e\<close>, where representable numbers are \<open>2 ^ (e - 52)\<close> apart (53-bit
  significand); below \<open>2 ^ (- 1022)\<close> the spacing stays \<open>2 ^ (- 1074)\<close> (subnormal numbers).
  \<open>nearest x\<close> is the multiple of that spacing nearest to \<open>x\<close>, a tie going to the even
  multiple; a result of magnitude \<open>2 ^ 1024\<close> or more overflows to an infinity.
\<close>

definition expo :: "real \<Rightarrow> int" where
  "expo x = (if x = 0 then - 1022 else max \<lfloor>log 2 \<bar>x\<bar>\<rfloor> (- 1022))"

definition ulp :: "real \<Rightarrow> real" where
  "ulp x = 2 powr of_int (expo x - 52)"

definition nearest :: "real \<Rightarrow> real" where
  "nearest x = of_int (py_round (x / ulp x)) * ulp x"

definition round_double :: "real \<Rightarrow> double" where
  "round_double x =
     (let r = nearest x
      in if 2 ^ 1024 \<le> r then PlusInf else if r \<le> - (2 ^ 1024) then MinusInf else Num r)"


fun fadd :: "double \<Rightarrow> double \<Rightarrow> double" where
  "fadd (Num x) (Num y) = round_double (x + y)"
| "fadd NotANumber _ = NotANumber"
| "fadd _ NotANumber = NotANumber"
| "fadd PlusInf MinusInf = NotANumber"
| "fadd MinusInf PlusInf = NotANumber"
| "fadd PlusInf _ = PlusInf"
| "fadd _ PlusInf = PlusInf"
| "fadd MinusInf _ = MinusInf"
| "fadd _ MinusInf = MinusInf"









text \<open>
  \<open>cal_hs\<close> itself, statement by statement in the evaluation order of the source;
  \<open>ebind\<close> passes a raised exception through. The attribute \<open>self.nb_attr\<close> is the first
  argument of the model.
\<close>

definition ebind :: "error + 'a \<Rightarrow> ('a \<Rightarrow> error + 'b) \<Rightarrow> error + 'b" where
  "ebind m f = (case m of Inl e \<Rightarrow> Inl e | Inr x \<Rightarrow> f x)"


section \<open>Transducer.loss: masked negative log-likelihood\<close>

text \<open>
  \<^verbatim>\<open>
  def loss(self, predict, target):
      return F.nll_loss(predict.view(-1, self.trg_vocab_size), target.view(-1),
                        ignore_index=PAD_IDX)
  \<close>
  \<open>predict\<close> has shape (steps, batch, vocabulary) and \<open>target\<close> has shape (steps, batch).
  \<open>view2\<close> is \<^verbatim>\<open>view(-1, V)\<close> on the flattened entries. \<open>nll_loss\<close> is
  \<^verbatim>\<open>F.nll_loss\<close> with its default mean reduction: a target equal to \<open>ignore_index\<close> is
  skipped before its range is checked, any other target outside \<open>[0, C)\<close> raises, and the
  sum of the kept terms is divided by their number. When nothing is kept the quotient
  is 0 / 0, the floating-point NaN, returned here as \<open>None\<close>. \<open>PAD_IDX\<close> is imported
  from the data loader, so it is a parameter.
\<close>

fun chunks :: "nat \<Rightarrow> nat \<Rightarrow> 'a list \<Rightarrow> 'a list list" where
  \<comment> \<open>the first \<open>n\<close> consecutive rows of width \<open>V\<close>\<close>
  "chunks V 0 xs = []"
| "chunks V (Suc n) xs = take V xs # chunks V n (drop V xs)"

definition view2 :: "nat \<Rightarrow> 'a list \<Rightarrow> error + 'a list list" where
  "view2 V flat =
     (if V = 0 \<or> length flat mod V \<noteq> 0 then Inl RuntimeError
      else Inr (chunks V (length flat div V) flat))"

definition nll_term :: "int \<Rightarrow> nat \<Rightarrow> real list \<Rightarrow> int \<Rightarrow> error + real \<times> nat" where
  \<comment> \<open>the contribution of one row to the sum and to the count\<close>
  "nll_term ignore_index C row t =
     (if t = ignore_index then Inr (0, 0)
      else if 0 \<le> t \<and> t < int C then Inr (- (row ! nat t), 1)
      else Inl IndexError)"

definition nll_loss :: "nat \<Rightarrow> int \<Rightarrow> real list list \<Rightarrow> int list \<Rightarrow> error + real option" where
  "nll_loss C ignore_index input target =
     (if length input \<noteq> length target then Inl ValueError
      else case sequence (map (\<lambda>(row, t). nll_term ignore_index C row t) (zip input target)) of
             Inl e \<Rightarrow> Inl e
           | Inr ts \<Rightarrow>
               (let s = sum_list (map fst ts); n = sum_list (map snd ts)
                in if n = 0 then Inr None else Inr (Some (s / real n))))"

definition loss :: "nat \<Rightarrow> int \<Rightarrow> real list list list \<Rightarrow> int list list \<Rightarrow> error + real option" where
  "loss trg_vocab_size PAD_IDX predict target =
     (case view2 trg_vocab_size (concat (concat predict)) of
        Inl e \<Rightarrow> Inl e
      | Inr input \<Rightarrow> nll_loss trg_vocab_size PAD_IDX input (concat target))"

definition shape3 :: "nat \<Rightarrow> nat \<Rightarrow> 'a list list list \<Rightarrow> bool" where
  \<comment> \<open>a tensor of shape (n, bs, V) for some n\<close>
  "shape3 bs V t = list_all (\<lambda>m. length m = bs \<and> list_all (\<lambda>v. length v = V) m) t"

section \<open>Numeric primitives\<close>

definition EPSILON :: real where
  "EPSILON = 1 / 10000000"

definition logsumexp :: "real list \<Rightarrow> real" where
  "logsumexp xs = ln (sum_list (map exp xs))"

definition log_softmax :: "real list \<Rightarrow> real list" where
  "log_softmax xs = map (\<lambda>x. x - logsumexp xs) xs"

definition softmax :: "real list \<Rightarrow> real list" where
  "softmax xs = map (\<lambda>x. exp x / sum_list (map exp xs)) xs"

datatype lval = Finite real | NegInf | NaN

definition torch_log :: "real \<Rightarrow> lval" where
  \<comment> \<open>\<^verbatim>\<open>torch.log\<close>: minus infinity at 0, not a number below 0\<close>
  "torch_log x = (if 0 < x then Finite (ln x) else if x = 0 then NegInf else NaN)"

section \<open>Transducer: decode\_step, decode, get\_loss\<close>

text \<open>
  The modules a \<open>Transducer\<close> is built from (\<^verbatim>\<open>nn.Embedding\<close>, \<^verbatim>\<open>nn.Dropout\<close>,
  \<^verbatim>\<open>nn.LSTM\<close>, \<^verbatim>\<open>nn.Linear\<close>, and the classes \<open>StackedLSTM\<close> and \<open>Attention\<close>, which
  this file uses but does not define) are fields of a record; the decoder state they
  thread is a type parameter. \<open>embed_trg\<close> stands for
  \<^verbatim>\<open>self.dropout(self.trg_embed(trg_batch))\<close>, \<open>encode\<close> for the whole encoder. The
  linear layers act on the last axis, so they are functions on one vector.
  \<^verbatim>\<open>
  def decode_step(self, enc_hs, enc_mask, input_, hidden):
      h_t, hidden = self.dec_rnn(input_, hidden)
      ctx, attn = self.attn(h_t, enc_hs, enc_mask)
      ctx = torch.cat((ctx, h_t), dim=1)
      ctx = self.linear_out(ctx)
      ctx = torch.tanh(ctx)
      word_logprob = F.log_softmax(self.final_out(ctx), dim=-1)
      return word_logprob, hidden, attn

  def decode(self, enc_hs, enc_mask, trg_batch):
      trg_seq_len = trg_batch.size(0)
      trg_bat_siz = trg_batch.size(1)
      trg_embed = self.dropout(self.trg_embed(trg_batch))
      output = []
      hidden = self.dec_rnn.get_init_hx(trg_bat_siz)
      for idx in range(trg_seq_len - 1):
          input_ = trg_embed[idx, :]
          word_logprob, hidden, _ = self.decode_step(enc_hs, enc_mask, input_, hidden)
          output += [word_logprob]
      return torch.stack(output)

  def get_loss(self, data):
      src, src_mask, trg, _ = data
      out = self.forward(src, src_mask, trg)
      loss = self.loss(out, trg[1:])
      return loss
  \<close>
\<close>

type_synonym enc_out = "real list list list \<times> real list list list"

type_synonym lstm_state = "(real list list \<times> real list list) list"

record ('h, 's) transducer =
  trg_vocab_size :: nat
  trg_hid_size :: nat
  trg_nb_layers :: nat
  embed_trg :: "int list list \<Rightarrow> real list list list"
  encode :: "'s \<Rightarrow> enc_out"
  dec_rnn :: "real list list \<Rightarrow> 'h \<Rightarrow> real list list \<times> 'h"
  attn :: "real list list \<Rightarrow> enc_out \<Rightarrow> real list list \<Rightarrow> real list list \<times> real list list"
  linear_out :: "real list \<Rightarrow> real list"
  final_out :: "real list \<Rightarrow> real list"

definition get_init_hx :: "('h, 's) transducer \<Rightarrow> nat \<Rightarrow> lstm_state" where
  \<comment> \<open>Modelled from the spec: \<open>StackedLSTM.get_init_hx\<close> is called by \<open>decode\<close> but
      the class is not part of the source. The specification describes it as the operation
      producing a fresh zero-initialized per-layer hidden/cell state for a given batch
      size: for each of the \<open>trg_nb_layers\<close> layers a hidden and a cell tensor of shape
      (batch, trg\_hid\_size), all entries 0.\<close>
  "get_init_hx M bs =
     replicate (trg_nb_layers M)
       (replicate bs (replicate (trg_hid_size M) 0), replicate bs (replicate (trg_hid_size M) 0))"

definition cat_dim1 :: "'a list list \<Rightarrow> 'a list list \<Rightarrow> error + 'a list list" where
  \<comment> \<open>\<^verbatim>\<open>torch.cat((a, b), dim=1)\<close> on two-axis tensors: the batch sizes must agree\<close>
  "cat_dim1 a b = (if length a \<noteq> length b then Inl RuntimeError else Inr (map2 (@) a b))"

definition decode_step ::
  "('h, 's) transducer \<Rightarrow> enc_out \<Rightarrow> real list list \<Rightarrow> real list list \<Rightarrow> 'h \<Rightarrow>
   error + real list list \<times> 'h \<times> real list list" where
  "decode_step M enc_hs enc_mask inp hidden =
     (let (h_t, hidden') = dec_rnn M inp hidden;
          (ctx, attn_w) = attn M h_t enc_hs enc_mask
      in case cat_dim1 ctx h_t of
           Inl e \<Rightarrow> Inl e
         | Inr ctx \<Rightarrow>
             (let ctx = map (linear_out M) ctx;
                  ctx = map (map tanh) ctx;
                  word_logprob = map log_softmax (map (final_out M) ctx)
              in Inr (word_logprob, hidden', attn_w)))"

fun decode_loop ::
  "('h, 's) transducer \<Rightarrow> enc_out \<Rightarrow> real list list \<Rightarrow> real list list list \<Rightarrow> nat list \<Rightarrow>
   'h \<Rightarrow> real list list list \<Rightarrow> error + real list list list" where
  "decode_loop M enc_hs enc_mask trg_embed [] hidden output = Inr output"
| "decode_loop M enc_hs enc_mask trg_embed (idx # idxs) hidden output =
     (let inp = trg_embed ! idx
      in case decode_step M enc_hs enc_mask inp hidden of
           Inl e \<Rightarrow> Inl e
         | Inr (word_logprob, hidden', _) \<Rightarrow>
             decode_loop M enc_hs enc_mask trg_embed idxs hidden' (output @ [word_logprob]))"

definition decode ::
  "(lstm_state, 's) transducer \<Rightarrow> enc_out \<Rightarrow> real list list \<Rightarrow> int list list \<Rightarrow>
   error + real list list list" where
  "decode M enc_hs enc_mask trg_batch =
     (let trg_seq_len = length trg_batch;
          trg_bat_siz = size1 trg_batch;
          trg_embed = embed_trg M trg_batch;
          hidden = get_init_hx M trg_bat_siz
      in case decode_loop M enc_hs enc_mask trg_embed [0..<trg_seq_len - 1] hidden [] of
           Inl e \<Rightarrow> Inl e
         | Inr output \<Rightarrow> torch_stack output)"

definition forward ::
  "(lstm_state, 's) transducer \<Rightarrow> 's \<Rightarrow> real list list \<Rightarrow> int list list \<Rightarrow> error + real list list list" where
  "forward M src_batch src_mask trg_batch = decode M (encode M src_batch) src_mask trg_batch"

definition get_loss ::
  "(lstm_state, 's) transducer \<Rightarrow> int \<Rightarrow> 's \<Rightarrow> real list list \<Rightarrow> int list list \<Rightarrow> error + real option" where
  "get_loss M PAD_IDX src src_mask trg =
     (case forward M src src_mask trg of
        Inl e \<Rightarrow> Inl e
      | Inr out \<Rightarrow> loss (trg_vocab_size M) PAD_IDX out (tl trg))"

fun teacher_forced ::
  "('h, 's) transducer \<Rightarrow> enc_out \<Rightarrow> real list list \<Rightarrow> real list list list \<Rightarrow> 'h \<Rightarrow>
   real list list list" where
  \<comment> \<open>the outputs of the decode step run over a list of inputs, the hidden state threaded
      from one step to the next\<close>
  "teacher_forced M enc_hs enc_mask [] h = []"
| "teacher_forced M enc_hs enc_mask (x # xs) h =
     (case decode_step M enc_hs enc_mask x h of
        Inl e \<Rightarrow> []
      | Inr (w, h', _) \<Rightarrow> w # teacher_forced M enc_hs enc_mask xs h')"

definition modules_ok :: "('h, 's) transducer \<Rightarrow> bool" where
  \<comment> \<open>the shape contract of the modules: the decoder cell and the attention return one row
      per batch example, the final projection returns a vocabulary-sized vector\<close>
  "modules_ok M =
     (0 < trg_vocab_size M \<and>
      (\<forall>x h. length (fst (dec_rnn M x h)) = length x) \<and>
      (\<forall>q e m. length (fst (attn M q e m)) = length q) \<and>
      (\<forall>v. length (final_out M v) = trg_vocab_size M))"

definition toy_transducer :: "('h, unit) transducer" where
  \<comment> \<open>a small concrete model: two target symbols, one decoder layer of width 1, the
      decoder cell and the attention return their input, the final projection returns two
      equal scores\<close>
  "toy_transducer =
     \<lparr>trg_vocab_size = 2,
      trg_hid_size = 1,
      trg_nb_layers = 1,
      embed_trg = map (map (\<lambda>t. [real_of_int t])),
      encode = (\<lambda>s. ([], [])),
      dec_rnn = (\<lambda>x h. (x, h)),
      attn = (\<lambda>q e m. (q, q)),
      linear_out = (\<lambda>v. v),
      final_out = (\<lambda>v. [0, 0])\<rparr>"

section \<open>HardMonoTransducer.decode\_step\<close>

text \<open>
  \<^verbatim>\<open>
  def decode_step(self, enc_hs, enc_mask, input_, hidden, attn_pos):
      source, attr = enc_hs
      bs = source.shape[1]
      if isinstance(attn_pos, int):
          assert bs == 1
          ctx = source[attn_pos]
      else:
          ctx = fancy_gather(source, attn_pos).squeeze(0)
      if attr is None:
          input_ = torch.cat((input_, ctx), dim=1)
      else:
          input_ = torch.cat((input_, attr, ctx), dim=1)
      h_t, hidden = self.dec_rnn(input_, hidden)
      word_logprob = F.log_softmax(self.final_out(h_t), dim=-1)
      return word_logprob, hidden, None
  \<close>
  The pointer argument is either a Python integer or a tensor, hence a datatype. When the
  gathered tensor has a leading axis other than 1, \<^verbatim>\<open>squeeze(0)\<close> leaves it with three
  axes and the following \<^verbatim>\<open>torch.cat\<close> with the two-axis input raises; \<open>squeeze0\<close>
  returns that error.
\<close>

datatype attn_position = IntPos int | TensorPos "int list list"

definition squeeze0 :: "'a list \<Rightarrow> error + 'a" where
  "squeeze0 g = (case g of [x] \<Rightarrow> Inr x | _ \<Rightarrow> Inl RuntimeError)"

definition hm_select :: "real list list list \<Rightarrow> attn_position \<Rightarrow> error + real list list" where
  \<comment> \<open>the encoder states \<open>ctx\<close> the pointer selects\<close>
  "hm_select source attn_pos =
     (let bs = size1 source
      in case attn_pos of
           IntPos p \<Rightarrow>
             (if bs \<noteq> 1 then Inl AssertionError
              else case py_index (length source) p of
                     Inl e \<Rightarrow> Inl e
                   | Inr j \<Rightarrow> Inr (source ! j))
         | TensorPos index \<Rightarrow>
             (case fancy_gather source index of
                Inl e \<Rightarrow> Inl e
              | Inr g \<Rightarrow> squeeze0 g))"

definition hm_finish ::
  "('h, 's) transducer \<Rightarrow> real list list option \<Rightarrow> real list list \<Rightarrow> 'h \<Rightarrow> real list list \<Rightarrow>
   error + real list list \<times> 'h" where
  \<comment> \<open>the rest of the step, from the concatenation on\<close>
  "hm_finish M attr inp hidden ctx =
     (case (case attr of
              None \<Rightarrow> cat_dim1 inp ctx
            | Some a \<Rightarrow> (case cat_dim1 inp a of Inl e \<Rightarrow> Inl e | Inr ia \<Rightarrow> cat_dim1 ia ctx)) of
        Inl e \<Rightarrow> Inl e
      | Inr inp' \<Rightarrow>
          (let (h_t, hidden') = dec_rnn M inp' hidden;
               word_logprob = map log_softmax (map (final_out M) h_t)
           in Inr (word_logprob, hidden')))"

definition hm_decode_step ::
  "('h, 's) transducer \<Rightarrow> real list list list \<times> real list list option \<Rightarrow> real list list \<Rightarrow>
   real list list \<Rightarrow> 'h \<Rightarrow> attn_position \<Rightarrow> error + real list list \<times> 'h" where
  "hm_decode_step M enc_hs enc_mask inp hidden attn_pos =
     (let (source, attr) = enc_hs
      in case hm_select source attn_pos of
           Inl e \<Rightarrow> Inl e
         | Inr ctx \<Rightarrow> hm_finish M attr inp hidden ctx)"

section \<open>MonoHMMTransducer.decode\_step: the monotonic mask\<close>

text \<open>
  \<^verbatim>\<open>
  def decode_step(self, enc_hs, enc_mask, input_, hidden):
      trans, emiss, hidden = super().decode_step(enc_hs, enc_mask, input_, hidden)
      trans_mask = torch.ones_like(trans[0]).triu().unsqueeze(0)
      trans_mask = (trans_mask - 1) * -np.log(EPSILON)
      trans = trans + trans_mask
      trans = trans - trans.logsumexp(-1, keepdim=True)
      return trans, emiss, hidden
  \<close>
  \<open>mono_constrain\<close> is the part after the call of the parent's step, applied to the
  parent's transition tensor of shape (batch, states, states), whose entries are finite
  log-probabilities. \<^verbatim>\<open>trans[0]\<close> raises on an empty batch. Emission and hidden state
  are passed through unchanged.
\<close>

definition ones_like :: "real list list \<Rightarrow> real list list" where
  "ones_like m = map (map (\<lambda>x. 1)) m"

definition triu :: "real list list \<Rightarrow> real list list" where
  \<comment> \<open>keeps the entries on and above the main diagonal, zero below\<close>
  "triu m = map (\<lambda>i. map (\<lambda>j. if i \<le> j then m ! i ! j else 0) [0..<length (m ! i)]) [0..<length m]"

definition mono_constrain :: "real list list list \<Rightarrow> error + real list list list" where
  "mono_constrain trn =
     (case trn of
        [] \<Rightarrow> Inl IndexError
      | t0 # _ \<Rightarrow>
          (let trans_mask = triu (ones_like t0);
               trans_mask = map (map (\<lambda>x. (x - 1) * - ln EPSILON)) trans_mask;
               trn = map (\<lambda>m. map2 (map2 (+)) m trans_mask) trn;
               trn = map (map (\<lambda>row. map (\<lambda>x. x - logsumexp row) row)) trn
           in Inr trn))"

definition penalised :: "real list list \<Rightarrow> nat \<Rightarrow> nat \<Rightarrow> real" where
  \<comment> \<open>entry (i, j) with the penalty \<open>- ln EPSILON\<close> taken off below the diagonal\<close>
  "penalised m i j = m ! i ! j - (if j < i then - ln EPSILON else 0)"

definition uniform3 :: "real list list" where
  \<comment> \<open>three states, every transition probability 1/3, in log space\<close>
  "uniform3 = replicate 3 (replicate 3 (ln (1 / 3)))"

section \<open>HardAttnTransducer.decode\_step\<close>

text \<open>
  \<^verbatim>\<open>
  def decode_step(self, enc_hs, enc_mask, input_, hidden):
      src_seq_len = enc_hs[0].size(0)
      h_t, hidden = self.dec_rnn(input_, hidden)
      # attns: batch x 1 x seq_len
      _, attns = self.attn(h_t, enc_hs, enc_mask, weighted_ctx=False)
      # ctx: batch x seq_len x (trg_hid_siz+src_hid_size*2)
      ctx = torch.cat(
          (h_t.unsqueeze(1).expand(-1, src_seq_len, -1), enc_hs[0].transpose(0, 1)), dim=2)
      ctx = self.linear_out(ctx)
      ctx = torch.tanh(ctx)
      # word_prob: batch x seq_len x nb_vocab
      word_prob = F.softmax(self.final_out(ctx), dim=-1)
      # word_prob: batch x nb_vocab
      word_prob = torch.bmm(attns, word_prob).squeeze(1)
      return torch.log(word_prob), hidden, attns
  \<close>
  The attention weights have shape (batch, 1, seq\_len); they are modelled as a list of one
  weight row per batch example. \<open>bmm_row\<close> is one batch element of \<^verbatim>\<open>torch.bmm\<close>: the
  weight row times the (seq\_len, vocabulary) matrix of that example. \<open>ha_mixture\<close> is the
  function up to the mixed probabilities, the argument of the final logarithm.
\<close>

definition expand_cat :: "real list list \<Rightarrow> real list list list \<Rightarrow> error + real list list list" where
  \<comment> \<open>entry (b, s) is the decoder state of example b followed by the encoder state at
      position s of example b; the two batch sizes must agree\<close>
  "expand_cat h_t enc0 =
     (if length h_t \<noteq> size1 enc0 then Inl RuntimeError
      else Inr (map (\<lambda>b. map (\<lambda>s. h_t ! b @ enc0 ! s ! b) [0..<length enc0]) [0..<length h_t]))"

definition bmm_row :: "real list \<Rightarrow> real list list \<Rightarrow> error + real list" where
  "bmm_row a W =
     (if length a \<noteq> length W then Inl RuntimeError
      else Inr (map (\<lambda>v. \<Sum>s \<leftarrow> [0..<length W]. a ! s * W ! s ! v) [0..<size1 W]))"

definition bmm1 :: "real list list \<Rightarrow> real list list list \<Rightarrow> error + real list list" where
  "bmm1 attns word_prob =
     (if length attns \<noteq> length word_prob then Inl RuntimeError
      else sequence (map (\<lambda>(a, W). bmm_row a W) (zip attns word_prob)))"

definition ha_mixture ::
  "('h, 's) transducer \<Rightarrow> enc_out \<Rightarrow> real list list \<Rightarrow> real list list \<Rightarrow> 'h \<Rightarrow>
   error + real list list \<times> 'h \<times> real list list" where
  "ha_mixture M enc_hs enc_mask inp hidden =
     (let (h_t, hidden') = dec_rnn M inp hidden;
          attns = snd (attn M h_t enc_hs enc_mask)
      in case expand_cat h_t (fst enc_hs) of
           Inl e \<Rightarrow> Inl e
         | Inr ctx \<Rightarrow>
             (let ctx = map (map (linear_out M)) ctx;
                  ctx = map (map (map tanh)) ctx;
                  word_prob = map (map softmax) (map (map (final_out M)) ctx)
              in case bmm1 attns word_prob of
                   Inl e \<Rightarrow> Inl e
                 | Inr word_prob \<Rightarrow> Inr (word_prob, hidden', attns)))"

definition ha_decode_step ::
  "('h, 's) transducer \<Rightarrow> enc_out \<Rightarrow> real list list \<Rightarrow> real list list \<Rightarrow> 'h \<Rightarrow>
   error + lval list list \<times> 'h \<times> real list list" where
  "ha_decode_step M enc_hs enc_mask inp hidden =
     (case ha_mixture M enc_hs enc_mask inp hidden of
        Inl e \<Rightarrow> Inl e
      | Inr (word_prob, hidden', attns) \<Rightarrow> Inr (map (map torch_log) word_prob, hidden', attns))"

definition ha_logit :: "('h, 's) transducer \<Rightarrow> real list list \<Rightarrow> real list list list \<Rightarrow> nat \<Rightarrow> nat \<Rightarrow> real list" where
  \<comment> \<open>the vocabulary scores of example b at source position s\<close>
  "ha_logit M h_t enc0 b s = final_out M (map tanh (linear_out M (h_t ! b @ enc0 ! s ! b)))"

definition sharp_transducer :: "('h, unit) transducer" where
  \<comment> \<open>the small model with two very different final scores\<close>
  "sharp_transducer = toy_transducer\<lparr>final_out := (\<lambda>v. [0, 100000000])\<rparr>"

section \<open>The EPSILON floor: HMMTransducer transitions and Categorical.log\_prob\<close>

text \<open>
  The transition part of \<open>HMMTransducer.decode_step\<close>, from the attention scores on:
  \<^verbatim>\<open>
  src_seq_len, bat_siz = enc_mask.shape
  ...
  trans = F.softmax(score, dim=-1) * enc_mask.transpose(0, 1) + EPSILON
  trans = trans / trans.sum(-1, keepdim=True)
  trans = trans.unsqueeze(1).log()
  trans = trans.expand(bat_siz, src_seq_len, src_seq_len)
  \<close>
  \<open>score\<close> has shape (batch, seq\_len) and \<open>enc_mask\<close> has shape (seq\_len, batch); other
  shapes are refused (the broadcasting of an axis of size 1 is not modelled).
  \<open>hmm_floored\<close> is the tensor after the first line, the divisor of the second line is
  the sum of each of its rows, and \<open>hmm_normalised\<close> is the argument of the logarithm.
  \<^verbatim>\<open>
  class Categorical(Distribution):
      def __init__(self, probs):
          assert probs.dim() == 2
          self.nb_prob, self.nb_choice = probs.size()
          self.probs = probs
          self.probs_t = probs.t()
      def log_prob(self, value):
          return (fancy_gather(self.probs_t, value) + EPSILON).log()
  \<close>
\<close>

definition transpose2 :: "'a list list \<Rightarrow> 'a list list" where
  "transpose2 m = map (\<lambda>j. map (\<lambda>r. r ! j) m) [0..<size1 m]"

definition hmm_floored :: "real list list \<Rightarrow> real list list \<Rightarrow> error + real list list" where
  "hmm_floored score enc_mask =
     (let src_seq_len = length enc_mask;
          bat_siz = size1 enc_mask;
          mask_t = transpose2 enc_mask
      in if length score \<noteq> bat_siz \<or> \<not> rect src_seq_len score then Inl RuntimeError
         else Inr (map2 (\<lambda>s m. map2 (\<lambda>p x. p * x + EPSILON) (softmax s) m) score mask_t))"

definition hmm_normalised :: "real list list \<Rightarrow> real list list \<Rightarrow> error + real list list" where
  "hmm_normalised score enc_mask =
     (case hmm_floored score enc_mask of
        Inl e \<Rightarrow> Inl e
      | Inr trn \<Rightarrow> Inr (map (\<lambda>row. map (\<lambda>x. x / sum_list row) row) trn))"

definition hmm_transition :: "real list list \<Rightarrow> real list list \<Rightarrow> error + lval list list list" where
  "hmm_transition score enc_mask =
     (case hmm_normalised score enc_mask of
        Inl e \<Rightarrow> Inl e
      | Inr trn \<Rightarrow> Inr (map (\<lambda>row. replicate (length enc_mask) (map torch_log row)) trn))"

definition categorical_log_prob :: "real list list \<Rightarrow> int list list \<Rightarrow> error + lval list list" where
  "categorical_log_prob probs val =
     (case fancy_gather (transpose2 probs) val of
        Inl e \<Rightarrow> Inl e
      | Inr g \<Rightarrow> Inr (map (map (\<lambda>p. torch_log (p + EPSILON))) g))"

definition is_finite :: "lval \<Rightarrow> bool" where
  "is_finite x = (case x of Finite r \<Rightarrow> True | NegInf \<Rightarrow> False | NaN \<Rightarrow> False)"

section \<open>HMM: the forward algorithm in log space\<close>

text \<open>
  \<^verbatim>\<open>
  def emiss(self, T, idx, ignore_index=None):
      assert len(idx.shape) == 1
      bs = idx.shape[0]
      idx = idx.view(-1, 1).expand(bs, self.ns).unsqueeze(-1)
      emiss = torch.gather(self.emission[T], -1, idx).view(bs, 1, self.ns)
      if ignore_index is None:
          return emiss
      else:
          idx = idx.view(bs, 1, self.ns)
          mask = (idx != ignore_index).float()
          return emiss * mask

  def p_x(self, seq, ignore_index=None):
      T, bs = seq.shape
      assert self.initial.shape == (bs, 1, self.ns)
      assert self.transition.shape == (T - 1, bs, self.ns, self.ns)
      assert self.emission.shape == (T, bs, self.ns, self.V)
      fwd = self.initial + self.emiss(0, seq[0], ignore_index=ignore_index)
      for t in range(T - 1):
          fwd = fwd + self.transition[t].transpose(1, 2)
          fwd = fwd.logsumexp(dim=-1, keepdim=True).transpose(1, 2)
          fwd = fwd + self.emiss(t + 1, seq[t + 1], ignore_index=ignore_index)
      return fwd
  \<close>
  The tensors are nested lists: \<open>initial\<close> of shape (batch, 1, states), \<open>transition\<close> of
  shape (T - 1, batch, states, states), \<open>emission\<close> of shape (T, batch, states, tokens),
  all log-probabilities idealised as reals. \<^verbatim>\<open>torch.gather\<close> raises on a token outside
  \<open>[0, V)\<close>. For an empty sequence \<open>T - 1\<close> is \<open>-1\<close> and the second assertion cannot hold.
\<close>

record hmm =
  hmm_ns :: nat
  hmm_V :: nat
  initial :: "real list list list"
  transition :: "real list list list list"
  emission :: "real list list list list"

definition has_shape2 :: "nat \<Rightarrow> nat \<Rightarrow> 'a list list \<Rightarrow> bool" where
  "has_shape2 a b t = (length t = a \<and> list_all (\<lambda>r. length r = b) t)"

definition has_shape3 :: "nat \<Rightarrow> nat \<Rightarrow> nat \<Rightarrow> 'a list list list \<Rightarrow> bool" where
  "has_shape3 a b c t = (length t = a \<and> list_all (has_shape2 b c) t)"

definition has_shape4 :: "nat \<Rightarrow> nat \<Rightarrow> nat \<Rightarrow> nat \<Rightarrow> 'a list list list list \<Rightarrow> bool" where
  "has_shape4 a b c d t = (length t = a \<and> list_all (has_shape3 b c d) t)"

definition emiss :: "hmm \<Rightarrow> nat \<Rightarrow> int list \<Rightarrow> int option \<Rightarrow> error + real list list list" where
  "emiss H t idx ignore_index =
     (let bs = length idx
      in if \<not> list_all (\<lambda>i. 0 \<le> i \<and> i < int (hmm_V H)) idx then Inl RuntimeError
         else
           (let em = map (\<lambda>b. [map (\<lambda>s. emission H ! t ! b ! s ! nat (idx ! b)) [0..<hmm_ns H]])
                         [0..<bs]
            in case ignore_index of
                 None \<Rightarrow> Inr em
               | Some g \<Rightarrow>
                   Inr (map (\<lambda>b. [map (\<lambda>s. em ! b ! 0 ! s * (if idx ! b \<noteq> g then 1 else 0))
                                      [0..<hmm_ns H]]) [0..<bs])))"

definition add3 :: "real list list list \<Rightarrow> real list list list \<Rightarrow> real list list list" where
  \<comment> \<open>the sum of two tensors of equal shape\<close>
  "add3 x y = map2 (map2 (map2 (+))) x y"

definition add_transposed :: "real list list list \<Rightarrow> real list list list \<Rightarrow> real list list list" where
  \<comment> \<open>\<^verbatim>\<open>fwd + transition[t].transpose(1, 2)\<close>: the single row of \<open>fwd\<close> is added to every
      row of the transposed matrix, so entry (b, j, i) is \<open>fwd[b][0][i] + tr[b][i][j]\<close>\<close>
  "add_transposed fwd tr =
     map2 (\<lambda>f m. map (\<lambda>j. map2 (+) (f ! 0) (map (\<lambda>row. row ! j) m)) [0..<size1 m]) fwd tr"

definition lse_transposed :: "real list list list \<Rightarrow> real list list list" where
  \<comment> \<open>\<^verbatim>\<open>logsumexp(dim=-1, keepdim=True).transpose(1, 2)\<close>\<close>
  "lse_transposed x = map (\<lambda>rows. [map logsumexp rows]) x"

fun p_x_loop :: "hmm \<Rightarrow> int list list \<Rightarrow> int option \<Rightarrow> nat list \<Rightarrow> real list list list \<Rightarrow>
    error + real list list list" where
  "p_x_loop H seq ignore_index [] fwd = Inr fwd"
| "p_x_loop H seq ignore_index (t # ts) fwd =
     (let fwd = add_transposed fwd (transition H ! t);
          fwd = lse_transposed fwd
      in case emiss H (t + 1) (seq ! (t + 1)) ignore_index of
           Inl e \<Rightarrow> Inl e
         | Inr em \<Rightarrow> p_x_loop H seq ignore_index ts (add3 fwd em))"

definition p_x :: "hmm \<Rightarrow> int list list \<Rightarrow> int option \<Rightarrow> error + real list list list" where
  "p_x H seq ignore_index =
     (let T = length seq; bs = size1 seq
      in if \<not> has_shape3 bs 1 (hmm_ns H) (initial H) then Inl AssertionError
         else if T = 0 \<or> \<not> has_shape4 (T - 1) bs (hmm_ns H) (hmm_ns H) (transition H)
           then Inl AssertionError
         else if \<not> has_shape4 T bs (hmm_ns H) (hmm_V H) (emission H) then Inl AssertionError
         else case emiss H 0 (seq ! 0) ignore_index of
                Inl e \<Rightarrow> Inl e
              | Inr em \<Rightarrow> p_x_loop H seq ignore_index [0..<T - 1] (add3 (initial H) em))"

definition emiss_at :: "hmm \<Rightarrow> int list list \<Rightarrow> int option \<Rightarrow> nat \<Rightarrow> nat \<Rightarrow> nat \<Rightarrow> real" where
  \<comment> \<open>the emission log-probability of the token observed at time t in state j, zero for
      an ignored token\<close>
  "emiss_at H seq ignore_index t b j =
     (if ignore_index = Some (seq ! t ! b) then 0
      else emission H ! t ! b ! j ! nat (seq ! t ! b))"

fun fwd_spec :: "hmm \<Rightarrow> int list list \<Rightarrow> int option \<Rightarrow> nat \<Rightarrow> nat \<Rightarrow> nat \<Rightarrow> real" where
  \<comment> \<open>the forward recurrence as the specification states it\<close>
  "fwd_spec H seq ignore_index 0 b j =
     initial H ! b ! 0 ! j + emiss_at H seq ignore_index 0 b j"
| "fwd_spec H seq ignore_index (Suc t) b j =
     ln (\<Sum>i \<leftarrow> [0..<hmm_ns H]. exp (fwd_spec H seq ignore_index t b i + transition H ! t ! b ! i ! j))
       + emiss_at H seq ignore_index (Suc t) b j"

definition fwd_tensor :: "hmm \<Rightarrow> int list list \<Rightarrow> int option \<Rightarrow> nat \<Rightarrow> nat \<Rightarrow> real list list list" where
  \<comment> \<open>the recurrence at time t as a tensor of shape (batch, 1, states)\<close>
  "fwd_tensor H seq ignore_index bs t =
     map (\<lambda>b. [map (\<lambda>j. fwd_spec H seq ignore_index t b j) [0..<hmm_ns H]]) [0..<bs]"

definition tokens_ok :: "hmm \<Rightarrow> int list list \<Rightarrow> bool" where
  "tokens_ok H seq = list_all (list_all (\<lambda>i. 0 \<le> i \<and> i < int (hmm_V H))) seq"

definition toy_hmm :: hmm where
  \<comment> \<open>two states, two tokens, two time steps, every log-probability 0\<close>
  "toy_hmm =
     \<lparr>hmm_ns = 2, hmm_V = 2,
      initial = [[[0, 0]]],
      transition = [[[[0, 0], [0, 0]]]],
      emission = [[[[0, 0], [0, 0]]], [[[0, 0], [0, 0]]]]\<rparr>"

definition single_step_hmm :: hmm where
  \<comment> \<open>one time step: initial distribution (1/2, 1/2), the observed token 0 has emission
      probability 9/10 in state 0 and 1/10 in state 1\<close>
  "single_step_hmm =
     \<lparr>hmm_ns = 2, hmm_V = 2,
      initial = [[[ln (1 / 2), ln (1 / 2)]]],
      transition = [],
      emission = [[[[ln (9 / 10), ln (1 / 10)], [ln (1 / 10), ln (9 / 10)]]]]\<rparr>"

section \<open>Helper lemmas on sequencing and gathering\<close>

lemma sequence_all_Inr: "sequence (map (\<lambda>x. Inr (f x)) xs) = Inr (map f xs)"
  by (induction xs) auto

lemma sequence_map_cong_Inr:
  "(\<And>x. x \<in> set xs \<Longrightarrow> g x = Inr (f x)) \<Longrightarrow> sequence (map g xs) = Inr (map f xs)"
  by (induction xs) auto

lemma sequence_Inl:
  "r \<in> set rs \<Longrightarrow> r = Inl e \<Longrightarrow> \<exists>e'. sequence rs = Inl e'"
proof (induction rs)
  case Nil
  then show ?case by simp
next
  case (Cons a rs)
  show ?case
  proof (cases a)
    case (Inl x)
    then show ?thesis by simp
  next
    case (Inr y)
    with Cons obtain e' where "sequence rs = Inl e'" by auto
    with Inr show ?thesis by simp
  qed
qed

lemma sequence_Inl_only:
  "(\<And>r e. r \<in> set rs \<Longrightarrow> r = Inl e \<Longrightarrow> e = e0) \<Longrightarrow> sequence rs = Inl e \<Longrightarrow> e = e0"
proof (induction rs)
  case Nil
  then show ?case by simp
next
  case (Cons a rs)
  show ?case
  proof (cases a)
    case (Inl x)
    with Cons.prems show ?thesis by auto
  next
    case (Inr y)
    with Cons.prems(2) have "sequence rs = Inl e" by (simp split: sum.splits)
    with Cons show ?thesis by auto
  qed
qed

lemma py_index_valid: "valid_index n i \<Longrightarrow> py_index n i = Inr (norm_index n i)"
  by (auto simp: py_index_def valid_index_def norm_index_def Let_def)

lemma py_index_invalid: "\<not> valid_index n i \<Longrightarrow> py_index n i = Inl IndexError"
  by (auto simp: py_index_def valid_index_def Let_def)

lemma norm_index_less: "valid_index n i \<Longrightarrow> norm_index n i < n"
  by (auto simp: valid_index_def norm_index_def)

lemma take_rows_valid:
  "list_all (valid_index (length v)) i \<Longrightarrow>
   take_rows v i = Inr (map (\<lambda>k. v ! norm_index (length v) k) i)"
  unfolding take_rows_def
  by (rule sequence_map_cong_Inr) (simp add: list_all_iff py_index_valid)

lemma take_rows_error: "take_rows v i = Inl e \<Longrightarrow> e = IndexError"
  unfolding take_rows_def
proof (erule sequence_Inl_only [rotated])
  fix r e'
  assume "r \<in> set (map (\<lambda>k. case py_index (length v) k of Inl e \<Rightarrow> Inl e | Inr j \<Rightarrow> Inr (v ! j)) i)"
    and "r = Inl e'"
  then obtain k where "(case py_index (length v) k of Inl e \<Rightarrow> Inl e | Inr j \<Rightarrow> Inr (v ! j)) = Inl e'"
    by auto
  then show "e' = IndexError"
    by (cases "valid_index (length v) k") (simp_all add: py_index_valid py_index_invalid)
qed

lemma take_rows_invalid:
  "\<not> list_all (valid_index (length v)) i \<Longrightarrow> take_rows v i = Inl IndexError"
proof -
  assume "\<not> list_all (valid_index (length v)) i"
  then obtain k where k: "k \<in> set i" "\<not> valid_index (length v) k"
    by (auto simp: list_all_iff)
  let ?g = "\<lambda>k. case py_index (length v) k of Inl e \<Rightarrow> Inl e | Inr j \<Rightarrow> Inr (v ! j)"
  have "?g k = Inl IndexError" using k by (simp add: py_index_invalid)
  moreover have "?g k \<in> set (map ?g i)" using k by simp
  ultimately obtain e' where e': "sequence (map ?g i) = Inl e'"
    using sequence_Inl by metis
  then have "take_rows v i = Inl e'" by (simp add: take_rows_def)
  with take_rows_error show ?thesis by metis
qed

lemma size1_rect: "t \<noteq> [] \<Longrightarrow> rect bs t \<Longrightarrow> size1 t = bs"
  by (cases t) (simp_all add: size1_def rect_def)



lemma zip_split1:
  "zip (map f [0..<n]) (map g [0..<n]) = map (\<lambda>b. (f b, g b)) [0..<n]"
  by (induction n) auto

lemma fancy_gather_cols:
  assumes v: "val \<noteq> []" "rect bs val" and i: "index \<noteq> []" "rect bs index"
  shows "map (\<lambda>(v, i). take_rows v i) (zip (split1 val) (split1 index)) =
         map (\<lambda>b. take_rows (map (\<lambda>r. r ! b) val) (map (\<lambda>r. r ! b) index)) [0..<bs]"
  using size1_rect [OF v] size1_rect [OF i]
  by (simp add: split1_def zip_split1)

lemma col_valid:
  assumes "rect bs index" "list_all (list_all (valid_index n)) index" "b < bs"
  shows "list_all (valid_index n) (map (\<lambda>r. r ! b) index)"
  using assms by (auto simp: rect_def list_all_iff)

lemma col_invalid:
  assumes "rect bs index" "\<not> list_all (list_all (valid_index n)) index"
  shows "\<exists>b<bs. \<not> list_all (valid_index n) (map (\<lambda>r. r ! b) index)"
proof -
  from assms(2) obtain row k where rk: "row \<in> set index" "k \<in> set row" "\<not> valid_index n k"
    by (auto simp: list_all_iff)
  from rk(2) obtain b where b: "b < length row" "row ! b = k" by (auto simp: in_set_conv_nth)
  from rk(1) assms(1) have "length row = bs" by (auto simp: rect_def list_all_iff)
  with b rk show ?thesis by (auto simp: list_all_iff intro!: exI [of _ b])
qed

lemma fancy_gather_valid:
  assumes v: "val \<noteq> []" "rect bs val" and i: "index \<noteq> []" "rect bs index"
    and bs: "0 < bs" and ok: "list_all (list_all (valid_index (length val))) index"
  shows "fancy_gather val index =
         Inr (map (\<lambda>row. map (\<lambda>b. val ! norm_index (length val) (row ! b) ! b) [0..<bs]) index)"
proof -
  let ?n = "length val"
  let ?col = "\<lambda>b. map (\<lambda>k. map (\<lambda>r. r ! b) val ! norm_index ?n k) (map (\<lambda>r. r ! b) index)"
  have seq: "sequence (map (\<lambda>(v, i). take_rows v i) (zip (split1 val) (split1 index)))
             = Inr (map ?col [0..<bs])"
    unfolding fancy_gather_cols [OF v i]
  proof (rule sequence_map_cong_Inr)
    fix b assume "b \<in> set [0..<bs]"
    then have "b < bs" by simp
    from col_valid [OF i(2) ok this]
    show "take_rows (map (\<lambda>r. r ! b) val) (map (\<lambda>r. r ! b) index) = Inr (?col b)"
      using take_rows_valid [of "map (\<lambda>r. r ! b) val" "map (\<lambda>r. r ! b) index"] by simp
  qed
  have cat: "cat1 (map ?col [0..<bs]) =
             map (\<lambda>k. map (\<lambda>b. ?col b ! k) [0..<bs]) [0..<length index]"
    using bs by (cases bs) (simp_all add: cat1_def upt_conv_Cons del: upt_Suc)
  have rows: "map (\<lambda>k. map (\<lambda>b. ?col b ! k) [0..<bs]) [0..<length index]
              = map (\<lambda>row. map (\<lambda>b. val ! norm_index ?n (row ! b) ! b) [0..<bs]) index"
  proof (rule nth_equalityI)
    show "length (map (\<lambda>k. map (\<lambda>b. ?col b ! k) [0..<bs]) [0..<length index]) =
          length (map (\<lambda>row. map (\<lambda>b. val ! norm_index ?n (row ! b) ! b) [0..<bs]) index)"
      by simp
  next
    fix k assume "k < length (map (\<lambda>k. map (\<lambda>b. ?col b ! k) [0..<bs]) [0..<length index])"
    then have k: "k < length index" by simp
    have "\<And>b. b < bs \<Longrightarrow> ?col b ! k = val ! norm_index ?n (index ! k ! b) ! b"
    proof -
      fix b assume b: "b < bs"
      from i(2) k have "length (index ! k) = bs" by (auto simp: rect_def list_all_iff)
      with b k have "index ! k \<in> set index" "index ! k ! b \<in> set (index ! k)"
        by simp_all
      with ok have "valid_index ?n (index ! k ! b)"
        by (simp add: list_all_iff)
      then have "norm_index ?n (index ! k ! b) < ?n" by (rule norm_index_less)
      with k show "?col b ! k = val ! norm_index ?n (index ! k ! b) ! b" by simp
    qed
    with k show "map (\<lambda>k. map (\<lambda>b. ?col b ! k) [0..<bs]) [0..<length index] ! k =
          map (\<lambda>row. map (\<lambda>b. val ! norm_index ?n (row ! b) ! b) [0..<bs]) index ! k"
      by simp
  qed
  show ?thesis
    using size1_rect [OF v] size1_rect [OF i] seq cat rows
    by (simp add: fancy_gather_def)
qed

lemma fancy_gather_invalid:
  assumes v: "val \<noteq> []" "rect bs val" and i: "index \<noteq> []" "rect bs index"
    and bad: "\<not> list_all (list_all (valid_index (length val))) index"
  shows "fancy_gather val index = Inl IndexError"
proof -
  let ?rs = "map (\<lambda>b. take_rows (map (\<lambda>r. r ! b) val) (map (\<lambda>r. r ! b) index)) [0..<bs]"
  from col_invalid [OF i(2) bad] obtain b where b: "b < bs"
    "\<not> list_all (valid_index (length val)) (map (\<lambda>r. r ! b) index)" by blast
  have "take_rows (map (\<lambda>r. r ! b) val) (map (\<lambda>r. r ! b) index) = Inl IndexError"
    using take_rows_invalid [of "map (\<lambda>r. r ! b) val" "map (\<lambda>r. r ! b) index"] b(2) by simp
  moreover have "take_rows (map (\<lambda>r. r ! b) val) (map (\<lambda>r. r ! b) index) \<in> set ?rs"
    using b(1) by auto
  ultimately obtain e where e: "sequence ?rs = Inl e"
    using sequence_Inl by metis
  have "e = IndexError"
  proof (rule sequence_Inl_only [OF _ e])
    fix r e' assume "r \<in> set ?rs" "r = Inl e'"
    then obtain x where "take_rows (map (\<lambda>r. r ! x) val) (map (\<lambda>r. r ! x) index) = Inl e'"
      by auto
    then show "e' = IndexError" by (rule take_rows_error)
  qed
  with e show ?thesis
    using size1_rect [OF v] size1_rect [OF i]
    by (simp add: fancy_gather_def fancy_gather_cols [OF v i])
qed

lemma fancy_gather_mismatch:
  assumes v: "val \<noteq> []" "rect bs val" and i: "index \<noteq> []" "rect bs' index" and "bs \<noteq> bs'"
  shows "fancy_gather val index = Inl AssertionError"
  using size1_rect [OF v] size1_rect [OF i] assms(5) by (simp add: fancy_gather_def)

section \<open>C8: fancy\_gather selects per batch column\<close>

text \<open>
  Claim C8. \<open>fancy_gather\<close> fails its assertion when value and index differ in size along
  the batch axis (axis 1). When they agree, slot (k, b) of the result is the entry of
  value's column b at the row that index entry (k, b) selects, so column b of the result
  depends on column b of value and of index only; an index outside the leading axis of
  value raises IndexError. Hence, when every entry of value equals (a function of) its
  own batch position, every selected slot holds that batch position, whatever the in-range
  index tensor is.
\<close>

theorem fancy_gather_per_column:
  assumes "val \<noteq> []" and "rect bs val" and "index \<noteq> []" and "rect bs' index" and "0 < bs"
  shows "(bs \<noteq> bs' \<longrightarrow> fancy_gather val index = Inl AssertionError) \<and>
         (bs = bs' \<and> list_all (list_all (valid_index (length val))) index \<longrightarrow>
            fancy_gather val index =
              Inr (map (\<lambda>row. map (\<lambda>b. val ! norm_index (length val) (row ! b) ! b) [0..<bs]) index)) \<and>
         (bs = bs' \<and> \<not> list_all (list_all (valid_index (length val))) index \<longrightarrow>
            fancy_gather val index = Inl IndexError) \<and>
         (bs = bs' \<and> list_all (list_all (valid_index (length val))) index \<and>
          (\<forall>r < length val. \<forall>b < bs. val ! r ! b = f b) \<longrightarrow>
            fancy_gather val index = Inr (map (\<lambda>row. map f [0..<bs]) index))"
proof (intro conjI impI)
  assume "bs \<noteq> bs'"
  with assms show "fancy_gather val index = Inl AssertionError"
    by (simp add: fancy_gather_mismatch)
next
  assume "bs = bs' \<and> list_all (list_all (valid_index (length val))) index"
  with assms show "fancy_gather val index =
      Inr (map (\<lambda>row. map (\<lambda>b. val ! norm_index (length val) (row ! b) ! b) [0..<bs]) index)"
    by (simp add: fancy_gather_valid)
next
  assume "bs = bs' \<and> \<not> list_all (list_all (valid_index (length val))) index"
  with assms show "fancy_gather val index = Inl IndexError"
    by (simp add: fancy_gather_invalid)
next
  assume h: "bs = bs' \<and> list_all (list_all (valid_index (length val))) index \<and>
          (\<forall>r < length val. \<forall>b < bs. val ! r ! b = f b)"
  with assms have fg: "fancy_gather val index =
      Inr (map (\<lambda>row. map (\<lambda>b. val ! norm_index (length val) (row ! b) ! b) [0..<bs]) index)"
    by (simp add: fancy_gather_valid)
  have "\<And>row b. row \<in> set index \<Longrightarrow> b < bs \<Longrightarrow>
          val ! norm_index (length val) (row ! b) ! b = f b"
  proof -
    fix row b assume rb: "row \<in> set index" "b < bs"
    with h assms(4) have "length row = bs" by (auto simp: rect_def list_all_iff)
    with rb have "row ! b \<in> set row" by simp
    with rb h have "valid_index (length val) (row ! b)" by (auto simp: list_all_iff)
    then have "norm_index (length val) (row ! b) < length val" by (rule norm_index_less)
    with h rb show "val ! norm_index (length val) (row ! b) ! b = f b" by blast
  qed
  then have "map (\<lambda>row. map (\<lambda>b. val ! norm_index (length val) (row ! b) ! b) [0..<bs]) index
             = map (\<lambda>row. map f [0..<bs]) index"
    by simp
  with fg show "fancy_gather val index = Inr (map (\<lambda>row. map f [0..<bs]) index)" by simp
qed

theorem fancy_gather_per_column_witness:
  "fancy_gather [[0, 1, 2], [0, 1, 2 :: int]] [[1, 0, -1], [0, 0, 0], [-2, 1, 1]]
     = Inr [[0, 1, 2], [0, 1, 2], [0, 1, 2]] \<and>
   fancy_gather [[10, 11, 12], [20, 21, 22 :: int]] [[1, 0, -1], [-2, 1, 1]]
     = Inr [[20, 11, 22], [10, 21, 22]] \<and>
   fancy_gather [[10, 11, 12], [20, 21, 22 :: int]] [[1, 0, 2]] = Inl IndexError \<and>
   fancy_gather [[10, 11, 12], [20, 21, 22 :: int]] [[1, 0]] = Inl AssertionError"
proof -
  have v: "[[0, 1, 2], [0, 1, 2 :: int]] \<noteq> []" "rect 3 [[0, 1, 2], [0, 1, 2 :: int]]"
    and w: "[[10, 11, 12], [20, 21, 22 :: int]] \<noteq> []" "rect 3 [[10, 11, 12], [20, 21, 22 :: int]]"
    and i1: "[[1, 0, -1], [0, 0, 0], [-2, 1, 1 :: int]] \<noteq> []"
            "rect 3 [[1, 0, -1], [0, 0, 0], [-2, 1, 1 :: int]]"
    and i2: "[[1, 0, -1], [-2, 1, 1 :: int]] \<noteq> []" "rect 3 [[1, 0, -1], [-2, 1, 1 :: int]]"
    and i3: "[[1, 0, 2 :: int]] \<noteq> []" "rect 3 [[1, 0, 2 :: int]]"
    and i4: "[[1, 0 :: int]] \<noteq> []" "rect 2 [[1, 0 :: int]]"
    and pos: "0 < (3 :: nat)"
    by (simp_all add: rect_def)
  have upt3: "[0..<3] = [0, 1, 2]" by (simp add: upt_conv_Cons)
  have a: "fancy_gather [[0, 1, 2], [0, 1, 2 :: int]] [[1, 0, -1], [0, 0, 0], [-2, 1, 1]]
             = Inr [[0, 1, 2], [0, 1, 2], [0, 1, 2]]"
  proof -
    have "\<forall>r < length [[0, 1, 2], [0, 1, 2 :: int]]. \<forall>b < 3. [[0, 1, 2], [0, 1, 2 :: int]] ! r ! b = int b"
      by (simp add: numeral_3_eq_3 All_less_Suc)
    then show ?thesis
      using fancy_gather_per_column [OF v(1) v(2) i1(1) i1(2) pos, of int]
      by (simp add: valid_index_def norm_index_def upt3)
  qed
  have b: "fancy_gather [[10, 11, 12], [20, 21, 22 :: int]] [[1, 0, -1], [-2, 1, 1]]
             = Inr [[20, 11, 22], [10, 21, 22]]"
    using fancy_gather_per_column [OF w(1) w(2) i2(1) i2(2) pos, of undefined]
    by (simp add: valid_index_def norm_index_def upt3)
  have c: "fancy_gather [[10, 11, 12], [20, 21, 22 :: int]] [[1, 0, 2]] = Inl IndexError"
    using fancy_gather_per_column [OF w(1) w(2) i3(1) i3(2) pos, of undefined]
    by (simp add: valid_index_def)
  have d: "fancy_gather [[10, 11, 12], [20, 21, 22 :: int]] [[1, 0]] = Inl AssertionError"
    using fancy_gather_per_column [OF w(1) w(2) i4(1) i4(2) pos, of undefined]
    by simp
  from a b c d show ?thesis by simp
qed

lemma length_scan_steps [simp]: "length (scan_steps STEP row js pos) = length pos"
  by (induction js arbitrary: pos) auto

lemma scan_steps_nth:
  "distinct js \<Longrightarrow> \<forall>k \<in> set js. k < length pos \<Longrightarrow> j < length pos \<Longrightarrow>
   scan_steps STEP row js pos ! j = pos ! j + (if j \<in> set js \<and> row ! j = STEP then 1 else 0)"
proof (induction js arbitrary: pos)
  case Nil
  then show ?case by simp
next
  case (Cons a js)
  let ?pos = "if row ! a = STEP then pos[a := pos ! a + 1] else pos"
  have len: "length ?pos = length pos" by simp
  from Cons.prems have "distinct js" "\<forall>k \<in> set js. k < length ?pos" "j < length ?pos"
    by simp_all
  from Cons.IH [OF this]
  have "scan_steps STEP row js ?pos ! j = ?pos ! j + (if j \<in> set js \<and> row ! j = STEP then 1 else 0)" .
  moreover have "a \<notin> set js" using Cons.prems by simp
  ultimately show ?case using Cons.prems(3)
    by (cases "j = a") (auto simp: nth_list_update)
qed

lemma scan_steps_row:
  assumes "length pos = bs"
  shows "scan_steps STEP row [0..<bs] pos =
         map (\<lambda>j. pos ! j + (if row ! j = STEP then 1 else 0)) [0..<bs]"
proof (rule nth_equalityI)
  show "length (scan_steps STEP row [0..<bs] pos) =
        length (map (\<lambda>j. pos ! j + (if row ! j = STEP then 1 else 0)) [0..<bs])"
    using assms by simp
next
  fix j assume "j < length (scan_steps STEP row [0..<bs] pos)"
  then have j: "j < bs" using assms by simp
  then show "scan_steps STEP row [0..<bs] pos ! j =
             map (\<lambda>j. pos ! j + (if row ! j = STEP then 1 else 0)) [0..<bs] ! j"
    using assms scan_steps_nth [of "[0..<bs]" pos j STEP row] by simp
qed

lemma steps_before_0: "steps_before STEP trg j 0 = 0"
  by (simp add: steps_before_def)

lemma steps_before_Suc:
  "steps_before STEP trg j (Suc i) =
   steps_before STEP trg j i + (if trg ! i ! j = STEP then 1 else 0)"
  by (simp add: steps_before_def)

lemma steps_before_mono: "i \<le> i' \<Longrightarrow> steps_before STEP trg j i \<le> steps_before STEP trg j i'"
proof (induction i' )
  case 0
  then show ?case by simp
next
  case (Suc i')
  show ?case
  proof (cases "i = Suc i'")
    case True
    then show ?thesis by simp
  next
    case False
    with Suc have "steps_before STEP trg j i \<le> steps_before STEP trg j i'" by simp
    then show ?thesis by (simp add: steps_before_Suc)
  qed
qed

lemma scan_ptr_row:
  "scan_steps STEP (trg ! a) [0..<bs] (ptr_row STEP trg bs a) = ptr_row STEP trg bs (Suc a)"
proof -
  have "length (ptr_row STEP trg bs a) = bs" by (simp add: ptr_row_def)
  from scan_steps_row [OF this] show ?thesis
    by (simp add: ptr_row_def steps_before_Suc)
qed

lemma hm_decode_loop_feed:
  "hm_decode_loop ds STEP trg bs [a..<b] (ptr_row STEP trg bs a) h out =
   feed ds (map (\<lambda>idx. (idx, ptr_row STEP trg bs (Suc idx))) [a..<b]) h out"
proof (induction "b - a" arbitrary: a h out)
  case 0
  then show ?case by simp
next
  case (Suc n)
  then have ab: "a < b" and n: "n = b - Suc a" by simp_all
  from ab have upt: "[a..<b] = a # [Suc a..<b]" by (simp add: upt_conv_Cons)
  show ?case
    unfolding upt
    by (simp add: scan_ptr_row Suc.hyps(1) [OF n] split: sum.splits prod.splits)
qed

lemma ptr_row_0: "ptr_row STEP trg bs 0 = replicate bs 0"
  by (simp add: ptr_row_def steps_before_0 map_replicate_const)

lemma hm_decode_feed:
  assumes "trg \<noteq> []" "rect bs trg"
  shows "hm_decode ds STEP g trg =
    (case feed ds (map (\<lambda>idx. (idx, ptr_row STEP trg bs (Suc idx))) [0..<length trg - 1]) (g bs) [] of
       Inl e \<Rightarrow> Inl e | Inr out \<Rightarrow> torch_stack out)"
  using size1_rect [OF assms] hm_decode_loop_feed [of ds STEP trg bs 0 "length trg - 1" "g bs" "[]"]
  by (simp add: hm_decode_def ptr_row_0)

section \<open>C1: the hard-monotonic pointer counts the STEP symbols fed so far\<close>

text \<open>
  Claim C1. In \<open>HardMonoTransducer.decode\<close> the pointer of every example starts at 0 and,
  before each decode step, advances by exactly one exactly when the target symbol fed at
  that step (the symbol preceding the position being decoded) is STEP; it never decreases.
  So the decode step that is fed target row \<open>idx\<close>, and decodes position \<open>idx + 1\<close>,
  receives for example \<open>j\<close> the number of STEP symbols among positions \<open>0..idx\<close> of
  that example, whatever the other symbols are. This holds for every decode step function
  \<open>ds\<close>: the decode loop is the plain run of \<open>ds\<close> over these pointer rows.
\<close>

theorem hm_decode_pointer:
  assumes "trg \<noteq> []" and "rect bs trg"
  shows "hm_decode ds STEP g trg =
           (case feed ds (map (\<lambda>idx. (idx, ptr_row STEP trg bs (Suc idx))) [0..<length trg - 1])
                   (g bs) [] of
              Inl e \<Rightarrow> Inl e
            | Inr out \<Rightarrow> torch_stack out) \<and>
         ptr_row STEP trg bs 0 = replicate bs 0 \<and>
         (\<forall>i. \<forall>j < bs. ptr_row STEP trg bs (Suc i) ! j =
                  ptr_row STEP trg bs i ! j + (if trg ! i ! j = STEP then 1 else 0)) \<and>
         (\<forall>i i'. \<forall>j < bs. i \<le> i' \<longrightarrow> ptr_row STEP trg bs i ! j \<le> ptr_row STEP trg bs i' ! j) \<and>
         (\<forall>i. \<forall>j < bs. ptr_row STEP trg bs i ! j =
                  int (length (filter (\<lambda>t. trg ! t ! j = STEP) [0..<i])))"
proof (intro conjI allI impI)
  show "hm_decode ds STEP g trg =
           (case feed ds (map (\<lambda>idx. (idx, ptr_row STEP trg bs (Suc idx))) [0..<length trg - 1])
                   (g bs) [] of
              Inl e \<Rightarrow> Inl e
            | Inr out \<Rightarrow> torch_stack out)"
    using assms by (rule hm_decode_feed)
next
  show "ptr_row STEP trg bs 0 = replicate bs 0" by (rule ptr_row_0)
next
  fix i j :: nat assume "j < bs"
  then show "ptr_row STEP trg bs (Suc i) ! j =
             ptr_row STEP trg bs i ! j + (if trg ! i ! j = STEP then 1 else 0)"
    by (simp add: ptr_row_def steps_before_Suc)
next
  fix i i' :: nat and j :: nat assume "j < bs" "i \<le> i'"
  then show "ptr_row STEP trg bs i ! j \<le> ptr_row STEP trg bs i' ! j"
    by (simp add: ptr_row_def steps_before_mono)
next
  fix i j :: nat assume "j < bs"
  then show "ptr_row STEP trg bs i ! j = int (length (filter (\<lambda>t. trg ! t ! j = STEP) [0..<i]))"
    by (simp add: ptr_row_def steps_before_def)
qed

theorem hm_decode_pointer_witness:
  "hm_decode (\<lambda>idx pos h. Inr ((idx, pos), h)) 3 (\<lambda>bs. ()) [[1, 3], [3, 5], [3, 3], [7, 3], [2, 2]]
     = Inr [(0, [0, 1]), (1, [1, 1]), (2, [2, 2]), (3, [2, 3])]"
proof -
  have ne: "[[1, 3], [3, 5], [3, 3], [7, 3], [2, 2 :: int]] \<noteq> []"
    and r: "rect 2 [[1, 3], [3, 5], [3, 3], [7, 3], [2, 2 :: int]]"
    by (simp_all add: rect_def)
  have u4: "[0..<4] = [0, 1, 2, 3]" and u2: "[0..<2] = [0, 1]" and u3: "[0..<3] = [0, 1, 2]"
    by (simp_all add: upt_conv_Cons)
  have u1: "[0..<Suc 0] = [0]" by simp
  show ?thesis
    using hm_decode_pointer [OF ne r, of "\<lambda>idx pos h. Inr ((idx, pos), h)" 3 "\<lambda>bs. ()"]
    by (simp add: ptr_row_def steps_before_def torch_stack_def u4 u2 u3 numeral_2_eq_2 [symmetric]
        numeral_3_eq_3 [symmetric])
qed

section \<open>C7: cal\_hs and the layer count\<close>

subsection \<open>Rounding to the nearest integer\<close>

lemma py_round_of_int: "py_round (of_int k) = k"
  by (simp add: py_round_def Let_def)


lemma py_round_ge_int: "of_int k \<le> y \<Longrightarrow> k \<le> py_round y"
proof -
  assume "of_int k \<le> y"
  then have "k \<le> \<lfloor>y\<rfloor>" by (simp add: le_floor_iff)
  then show ?thesis unfolding py_round_def Let_def by auto
qed



subsection \<open>Rounding to binary64: error bound, monotonicity, exactness, overflow\<close>

lemma ulp_pos: "0 < ulp x"
  by (simp add: ulp_def)

lemma two_powr_int: "0 \<le> k \<Longrightarrow> (2::real) powr of_int k = of_int (2 ^ nat k)"
proof -
  assume "0 \<le> k"
  then have "(of_int k :: real) = real (nat k)" by simp
  then have "(2::real) powr of_int k = 2 ^ nat k"
    by (simp only: powr_realpow zero_less_numeral)
  then show ?thesis by simp
qed

lemma expo_ge: "- 1022 \<le> expo x"
  by (simp add: expo_def)

lemma abs_lt_expo: "x \<noteq> 0 \<Longrightarrow> \<bar>x\<bar> < 2 powr of_int (expo x + 1)"
proof -
  assume x: "x \<noteq> 0"
  then have p: "0 < \<bar>x\<bar>" by simp
  have "log 2 \<bar>x\<bar> < of_int (\<lfloor>log 2 \<bar>x\<bar>\<rfloor> + 1)" by linarith
  also have "\<dots> \<le> of_int (expo x + 1)" using x by (simp add: expo_def)
  finally have "2 powr log 2 \<bar>x\<bar> < 2 powr of_int (expo x + 1)"
    by (simp only: powr_less_cancel_iff one_less_numeral_iff semiring_norm)
  with p show ?thesis by simp
qed


lemma expo_gt_le_abs: "- 1022 < expo x \<Longrightarrow> 2 powr of_int (expo x) \<le> \<bar>x\<bar>"
proof -
  assume h: "- 1022 < expo x"
  then have x: "x \<noteq> 0" by (auto simp: expo_def)
  then have p: "0 < \<bar>x\<bar>" by simp
  from h x have e: "expo x = \<lfloor>log 2 \<bar>x\<bar>\<rfloor>" by (auto simp: expo_def max_def split: if_splits)
  have "of_int (expo x) \<le> log 2 \<bar>x\<bar>" unfolding e by simp
  then have "2 powr of_int (expo x) \<le> 2 powr log 2 \<bar>x\<bar>"
    by (simp only: powr_le_cancel_iff one_less_numeral_iff semiring_norm)
  with p show ?thesis by simp
qed

lemma expo_mono: "a \<noteq> 0 \<Longrightarrow> \<bar>a\<bar> \<le> \<bar>x\<bar> \<Longrightarrow> expo a \<le> expo x"
proof -
  assume a: "a \<noteq> 0" and le: "\<bar>a\<bar> \<le> \<bar>x\<bar>"
  then have x: "x \<noteq> 0" by auto
  from a le have "log 2 \<bar>a\<bar> \<le> log 2 \<bar>x\<bar>" by simp
  then have "\<lfloor>log 2 \<bar>a\<bar>\<rfloor> \<le> \<lfloor>log 2 \<bar>x\<bar>\<rfloor>" by (rule floor_mono)
  with a x show ?thesis by (simp add: expo_def)
qed




lemma py_round_neg: "py_round (- y) = - py_round y"
proof (cases "y = of_int \<lfloor>y\<rfloor>")
  case True
  then obtain k where "y = of_int k" ..
  then have "- y = of_int (- k)" by simp
  then have "py_round (- y) = - k" by (simp only: py_round_of_int)
  with \<open>y = of_int k\<close> show ?thesis by (simp add: py_round_of_int)
next
  case False
  define f where "f = \<lfloor>y\<rfloor>"
  define d where "d = y - of_int f"
  have d: "0 < d" "d < 1" using False by (simp_all add: d_def f_def less_le) linarith
  have y: "y = of_int f + d" by (simp add: d_def)
  have fy: "\<lfloor>y\<rfloor> = f" by (simp add: f_def)
  have fn: "\<lfloor>- y\<rfloor> = - f - 1"
    using d unfolding y by (intro floor_unique) simp_all
  have dn: "- y - of_int (- f - 1) = 1 - d" by (simp add: y)
  have dd: "y - of_int f = d" by (simp add: y)
  have ev: "even (- f - 1) \<longleftrightarrow> odd f" by simp
  consider "d < 1 / 2" | "1 / 2 < d" | "d = 1 / 2" by linarith
  then show ?thesis
  proof cases
    case 1 then show ?thesis unfolding py_round_def Let_def fy fn dn dd by simp
  next
    case 2 then show ?thesis unfolding py_round_def Let_def fy fn dn dd by simp
  next
    case 3 then show ?thesis unfolding py_round_def Let_def fy fn dn dd ev by simp
  qed
qed


lemma expo_neg [simp]: "expo (- x) = expo x"
  by (simp add: expo_def)

lemma ulp_neg [simp]: "ulp (- x) = ulp x"
  by (simp add: ulp_def)

lemma nearest_neg: "nearest (- x) = - nearest x"
  by (simp add: nearest_def py_round_neg)

lemma nearest_zero [simp]: "nearest 0 = 0"
  using py_round_of_int [of 0] by (simp add: nearest_def)

lemma ulp_shift:
  assumes "expo x \<le> expo a"
  shows "ulp a = of_int (2 ^ nat (expo a - expo x)) * ulp x"
proof -
  have "ulp a = 2 powr (of_int (expo a - expo x) + of_int (expo x - 52))"
    by (simp add: ulp_def)
  also have "\<dots> = 2 powr of_int (expo a - expo x) * 2 powr of_int (expo x - 52)"
    by (rule powr_add)
  also have "2 powr of_int (expo a - expo x) = (of_int (2 ^ nat (expo a - expo x)) :: real)"
    using assms by (intro two_powr_int) simp
  finally show ?thesis by (simp add: ulp_def)
qed

lemma nearest_ge_pow:
  assumes "- 1022 < expo x" "0 < x"
  shows "2 powr of_int (expo x) \<le> nearest x"
proof -
  have u: "0 < ulp x" by (rule ulp_pos)
  have e: "2 powr of_int (expo x) = of_int (2 ^ 52) * ulp x"
  proof -
    have "(2::real) powr of_int (expo x) = 2 powr (of_int 52 + of_int (expo x - 52))" by simp
    also have "\<dots> = 2 powr of_int 52 * 2 powr of_int (expo x - 52)" by (rule powr_add)
    also have "2 powr of_int 52 = (of_int (2 ^ nat 52) :: real)" by (intro two_powr_int) simp
    finally show ?thesis by (simp add: ulp_def)
  qed
  from expo_gt_le_abs [OF assms(1)] assms(2) have "2 powr of_int (expo x) \<le> x" by simp
  then have "of_int (2 ^ 52) * ulp x \<le> x" unfolding e .
  then have "of_int (2 ^ 52) \<le> x / ulp x" using u by (simp add: le_divide_eq)
  then have "2 ^ 52 \<le> py_round (x / ulp x)" by (rule py_round_ge_int)
  then have "(of_int (2 ^ 52) :: real) \<le> of_int (py_round (x / ulp x))" by (simp only: of_int_le_iff)
  then have "of_int (2 ^ 52) * ulp x \<le> of_int (py_round (x / ulp x)) * ulp x"
    using u by (intro mult_right_mono) simp_all
  then show ?thesis unfolding e nearest_def .
qed

lemma nearest_multiple_ge:
  assumes "a = of_int k * ulp x" "a \<le> x"
  shows "a \<le> nearest x"
proof -
  have u: "0 < ulp x" by (rule ulp_pos)
  from assms have "of_int k \<le> x / ulp x" using u by (simp add: le_divide_eq)
  then have "k \<le> py_round (x / ulp x)" by (rule py_round_ge_int)
  then have "(of_int k :: real) \<le> of_int (py_round (x / ulp x))" by (simp only: of_int_le_iff)
  then have "of_int k * ulp x \<le> of_int (py_round (x / ulp x)) * ulp x"
    using u by (intro mult_right_mono) simp_all
  then show ?thesis unfolding assms(1) nearest_def .
qed

lemma nearest_ge:
  assumes fx: "nearest a = a" and le: "a \<le> x"
  shows "a \<le> nearest x"
proof -
  consider "a \<le> 0" "0 \<le> x" | "0 < a" | "x < 0" by linarith
  then show ?thesis
  proof cases
    case 1
    have "(0::real) = of_int 0 * ulp x" by simp
    from nearest_multiple_ge [OF this 1(2)] 1(1) show ?thesis by simp
  next
    case 2
    with le have x: "0 < x" by simp
    from 2 le have "a \<noteq> 0" "\<bar>a\<bar> \<le> \<bar>x\<bar>" by simp_all
    then have el: "expo a \<le> expo x" by (rule expo_mono)
    show ?thesis
    proof (cases "expo a = expo x")
      case True
      then have "ulp a = ulp x" by (simp add: ulp_def)
      with fx have "a = of_int (py_round (a / ulp x)) * ulp x" by (simp add: nearest_def)
      from nearest_multiple_ge [OF this le] show ?thesis .
    next
      case False
      with el have lt: "expo a < expo x" by simp
      with expo_ge [of a] have "- 1022 < expo x" by linarith
      from nearest_ge_pow [OF this x] have "2 powr of_int (expo x) \<le> nearest x" .
      moreover have "a < 2 powr of_int (expo a + 1)"
        using abs_lt_expo [of a] 2 by simp
      moreover have "2 powr of_int (expo a + 1) \<le> (2::real) powr of_int (expo x)"
        using lt by (simp only: powr_le_cancel_iff one_less_numeral_iff semiring_norm of_int_le_iff)
      ultimately show ?thesis by linarith
    qed
  next
    case 3
    with le have "x \<noteq> 0" "\<bar>x\<bar> \<le> \<bar>a\<bar>" by simp_all
    then have el: "expo x \<le> expo a" by (rule expo_mono)
    from fx have "a = of_int (py_round (a / ulp a)) * ulp a" by (simp add: nearest_def)
    also have "\<dots> = of_int (py_round (a / ulp a) * 2 ^ nat (expo a - expo x)) * ulp x"
      by (simp add: ulp_shift [OF el])
    finally have "a = of_int (py_round (a / ulp a) * 2 ^ nat (expo a - expo x)) * ulp x" .
    from nearest_multiple_ge [OF this le] show ?thesis .
  qed
qed

lemma nearest_le:
  assumes "nearest a = a" and "x \<le> a"
  shows "nearest x \<le> a"
proof -
  have "nearest (- a) = - a" using assms(1) by (simp add: nearest_neg)
  moreover have "- a \<le> - x" using assms(2) by simp
  ultimately have "- a \<le> nearest (- x)" by (rule nearest_ge)
  then show ?thesis by (simp add: nearest_neg)
qed

lemma nearest_exact:
  assumes x: "x = of_int m * 2 powr of_int e" and m: "\<bar>m\<bar> < 2 ^ 53" and e: "- 1074 \<le> e"
  shows "nearest x = x"
proof (cases "x = 0")
  case True then show ?thesis by simp
next
  case False
  have u: "0 < ulp x" by (rule ulp_pos)
  have k: "expo x - 52 \<le> e"
  proof (cases "expo x = - 1022")
    case True with e show ?thesis by simp
  next
    case False
    with expo_ge [of x] have "- 1022 < expo x" by linarith
    then have "2 powr of_int (expo x) \<le> \<bar>x\<bar>" by (rule expo_gt_le_abs)
    also have "\<bar>x\<bar> = \<bar>of_int m\<bar> * 2 powr of_int e" unfolding x by (simp add: abs_mult)
    also have "\<dots> < 2 ^ 53 * 2 powr of_int e"
    proof (rule mult_strict_right_mono)
      have "(of_int \<bar>m\<bar> :: real) < of_int (2 ^ 53)" using m by (simp only: of_int_less_iff)
      then show "\<bar>of_int m :: real\<bar> < 2 ^ 53" by simp
    qed simp
    also have "(2::real) ^ 53 = 2 powr of_int 53" by (simp add: powr_numeral)
    also have "2 powr of_int 53 * 2 powr of_int e = (2::real) powr of_int (53 + e)"
      by (simp add: powr_add)
    finally have "of_int (expo x) < (of_int (53 + e) :: real)"
      by (simp only: powr_less_cancel_iff one_less_numeral_iff semiring_norm)
    then have "expo x < 53 + e" by (simp only: of_int_less_iff)
    then show ?thesis by simp
  qed
  have "(2::real) powr of_int e = 2 powr (of_int (e - (expo x - 52)) + of_int (expo x - 52))" by simp
  also have "\<dots> = 2 powr of_int (e - (expo x - 52)) * 2 powr of_int (expo x - 52)"
    by (rule powr_add)
  also have "2 powr of_int (e - (expo x - 52)) = (of_int (2 ^ nat (e - (expo x - 52))) :: real)"
    using k by (intro two_powr_int) simp
  finally have "2 powr of_int e = of_int (2 ^ nat (e - (expo x - 52))) * ulp x"
    by (simp add: ulp_def)
  then have xk: "x = of_int (m * 2 ^ nat (e - (expo x - 52))) * ulp x"
    unfolding x by simp
  then have "x / ulp x = of_int (m * 2 ^ nat (e - (expo x - 52)))"
    using u by (simp add: field_simps)
  then have "py_round (x / ulp x) = m * 2 ^ nat (e - (expo x - 52))"
    by (simp only: py_round_of_int)
  then have "nearest x = of_int (m * 2 ^ nat (e - (expo x - 52))) * ulp x"
    by (simp only: nearest_def)
  with xk show ?thesis by simp
qed

lemma nearest_int: "\<bar>m\<bar> < 2 ^ 53 \<Longrightarrow> nearest (of_int m) = of_int m"
  by (rule nearest_exact [where m = m and e = 0]) simp_all

lemma nearest_half: "\<bar>m\<bar> < 2 ^ 53 \<Longrightarrow> nearest (of_int m / 2) = of_int m / 2"
  by (rule nearest_exact [where m = m and e = "- 1"]) (simp_all add: powr_minus)

lemma nearest_quarter: "\<bar>m\<bar> < 2 ^ 53 \<Longrightarrow> nearest (of_int m / 4) = of_int m / 4"
proof -
  have "(2::real) powr of_int (- 2) = 1 / 4" by (simp add: powr_minus powr_numeral)
  then show "\<bar>m\<bar> < 2 ^ 53 \<Longrightarrow> nearest (of_int m / 4) = of_int m / 4"
    by (intro nearest_exact [where m = m and e = "- 2"]) simp_all
qed








lemma round_double_Num: "\<bar>nearest x\<bar> < 2 ^ 1024 \<Longrightarrow> round_double x = Num (nearest x)"
  by (simp add: round_double_def Let_def abs_less_iff not_le)



lemma round_double_between:
  assumes "nearest a = a" "nearest b = b" "- (2 ^ 1024) < a" "b < 2 ^ 1024" "a \<le> x" "x \<le> b"
  shows "\<exists>y. round_double x = Num y \<and> a \<le> y \<and> y \<le> b"
proof -
  have "a \<le> nearest x" using assms(1,5) by (rule nearest_ge)
  moreover have "nearest x \<le> b" using assms(2,6) by (rule nearest_le)
  ultimately show ?thesis using assms(3,4) by (intro exI [of _ "nearest x"]) (simp add: round_double_Num)
qed

lemma round_double_quarters:
  assumes "of_int a / 4 \<le> x" "x \<le> of_int b / 4" "\<bar>a\<bar> < 2 ^ 53" "\<bar>b\<bar> < 2 ^ 53"
  shows "\<exists>y. round_double x = Num y \<and> of_int a / 4 \<le> y \<and> y \<le> of_int b / 4"
proof (rule round_double_between)
  show "nearest (of_int a / 4) = of_int a / 4" using assms(3) by (rule nearest_quarter)
  show "nearest (of_int b / 4) = of_int b / 4" using assms(4) by (rule nearest_quarter)
  have "(of_int \<bar>a\<bar> :: real) < of_int (2 ^ 53)" using assms(3) by (simp only: of_int_less_iff)
  then show "- (2 ^ 1024) < (of_int a / 4 :: real)" by simp
  have "(of_int \<bar>b\<bar> :: real) < of_int (2 ^ 53)" using assms(4) by (simp only: of_int_less_iff)
  then show "(of_int b / 4 :: real) < 2 ^ 1024" by simp
qed (use assms in simp_all)



subsection \<open>The operations on representable intervals\<close>

lemma ebind_Inr [simp]: "ebind (Inr x) f = f x"
  by (simp add: ebind_def)

lemma ebind_Inl [simp]: "ebind (Inl e) f = Inl e"
  by (simp add: ebind_def)






lemma fadd_quarters:
  assumes "of_int a / 4 \<le> x + y" "x + y \<le> of_int b / 4" "\<bar>a\<bar> < 2 ^ 53" "\<bar>b\<bar> < 2 ^ 53"
  shows "\<exists>z. fadd (Num x) (Num y) = Num z \<and> of_int a / 4 \<le> z \<and> z \<le> of_int b / 4"
  using round_double_quarters [OF assms] by simp





subsection \<open>cal\_hs at the configuration of the specification\<close>

















section \<open>Helper lemmas on the loss and on decoding\<close>

lemma chunks_concat:
  "list_all (\<lambda>v. length v = V) rows \<Longrightarrow> chunks V (length rows) (concat rows @ rest) = rows"
  by (induction rows) auto

lemma length_concat_rows:
  "list_all (\<lambda>v. length v = V) rows \<Longrightarrow> length (concat rows) = length rows * V"
  by (induction rows) auto

lemma view2_concat:
  assumes "0 < V" "list_all (\<lambda>v. length v = V) rows"
  shows "view2 V (concat rows) = Inr rows"
  using assms length_concat_rows [OF assms(2)] chunks_concat [OF assms(2), of "[]"]
  by (simp add: view2_def)

lemma shape3_rows:
  "shape3 bs V t \<Longrightarrow> list_all (\<lambda>v. length v = V) (concat t)"
  by (induction t) (auto simp: shape3_def)

lemma shape3_length:
  "shape3 bs V t \<Longrightarrow> length (concat t) = length t * bs"
  by (induction t) (auto simp: shape3_def)

lemma rect_length:
  "rect bs t \<Longrightarrow> length (concat t) = length t * bs"
  by (induction t) (auto simp: rect_def)

lemma sequence_append:
  "sequence (xs @ ys) =
     (case sequence xs of Inl e \<Rightarrow> Inl e
      | Inr as \<Rightarrow> (case sequence ys of Inl e \<Rightarrow> Inl e | Inr bs \<Rightarrow> Inr (as @ bs)))"
proof (induction xs)
  case Nil
  show ?case by (simp split: sum.splits)
next
  case (Cons a xs)
  then show ?case by (cases a) (simp_all split: sum.splits)
qed

lemma pad_terms:
  "length p = n \<Longrightarrow>
   sequence (map (\<lambda>(row, t). nll_term PAD C row t) (zip p (replicate n PAD))) = Inr (replicate n (0, 0))"
proof (induction p arbitrary: n)
  case Nil
  then show ?case by simp
next
  case (Cons a p)
  then obtain m where "n = Suc m" "length p = m" by (cases n) auto
  with Cons.IH [of m] show ?case by (simp add: nll_term_def)
qed

lemma nll_loss_append_pad:
  assumes "length p = n"
  shows "nll_loss C PAD (inp @ p) (tg @ replicate n PAD) = nll_loss C PAD inp tg"
proof (cases "length inp = length tg")
  case True
  then have z: "zip (inp @ p) (tg @ replicate n PAD) = zip inp tg @ zip p (replicate n PAD)"
    by simp
  show ?thesis
    using True assms
    by (simp add: nll_loss_def z sequence_append pad_terms Let_def sum_list_replicate split: sum.splits)
next
  case False
  with assms show ?thesis by (simp add: nll_loss_def)
qed

lemma loss_append_pad:
  assumes V: "0 < V" and P: "shape3 bs V predict" and p: "length p = bs" "list_all (\<lambda>v. length v = V) p"
  shows "loss V PAD (predict @ [p]) (target @ [replicate bs PAD]) = loss V PAD predict target"
proof -
  have r1: "list_all (\<lambda>v. length v = V) (concat predict)" using P by (rule shape3_rows)
  then have r2: "list_all (\<lambda>v. length v = V) (concat predict @ p)" using p(2) by simp
  have v1: "view2 V (concat (concat predict)) = Inr (concat predict)"
    using V r1 by (rule view2_concat)
  have v2: "view2 V (concat (concat (predict @ [p]))) = Inr (concat predict @ p)"
    using view2_concat [OF V r2] by simp
  show ?thesis
    unfolding loss_def v1 v2 using nll_loss_append_pad [OF p(1)] by simp
qed

lemma sum_exp_pos: "xs \<noteq> [] \<Longrightarrow> 0 < sum_list (map exp (xs :: real list))"
proof (induction xs)
  case Nil
  then show ?case by simp
next
  case (Cons a xs)
  have "0 \<le> sum_list (map exp xs)" by (rule sum_list_nonneg) auto
  moreover have "0 < exp a" by simp
  ultimately show ?case by (simp add: add_pos_nonneg)
qed

lemma sum_list_divide: "sum_list (map (\<lambda>x. f x / (c :: real)) xs) = sum_list (map f xs) / c"
  by (induction xs) (simp_all add: add_divide_distrib)

lemma log_softmax_normalised:
  assumes "xs \<noteq> []"
  shows "sum_list (map exp (log_softmax xs)) = 1"
proof -
  let ?S = "sum_list (map exp xs)"
  have S: "0 < ?S" using assms by (rule sum_exp_pos)
  have "map exp (log_softmax xs) = map (\<lambda>x. exp x / ?S) xs"
    using S by (simp add: log_softmax_def logsumexp_def exp_diff o_def)
  then have "sum_list (map exp (log_softmax xs)) = ?S / ?S"
    by (simp add: sum_list_divide)
  with S show ?thesis by simp
qed

lemma length_log_softmax [simp]: "length (log_softmax xs) = length xs"
  by (simp add: log_softmax_def)

lemma decode_step_ok:
  assumes "modules_ok M"
  shows "\<exists>w h a. decode_step M e m x h0 = Inr (w, h, a) \<and> length w = length x \<and>
           (\<forall>v \<in> set w. length v = trg_vocab_size M \<and> sum_list (map exp v) = 1)"
proof -
  obtain h_t h' where r: "dec_rnn M x h0 = (h_t, h')" by (cases "dec_rnn M x h0")
  obtain ctx a where at: "attn M h_t e m = (ctx, a)" by (cases "attn M h_t e m")
  from assms r have l1: "length h_t = length x"
    by (metis fst_conv modules_ok_def)
  from assms at have l2: "length ctx = length h_t"
    by (metis fst_conv modules_ok_def)
  from assms have V: "0 < trg_vocab_size M" and fo: "\<And>v. length (final_out M v) = trg_vocab_size M"
    by (simp_all add: modules_ok_def)
  have ne: "\<And>v. final_out M v \<noteq> []" using V fo by (metis length_0_conv less_numeral_extra(3))
  show ?thesis
    using r at l1 l2 fo ne
    by (auto simp: decode_step_def cat_dim1_def Let_def log_softmax_normalised)
qed

lemma decode_loop_tf:
  assumes "modules_ok M"
  shows "decode_loop M e m emb idxs h out =
         Inr (out @ teacher_forced M e m (map (\<lambda>i. emb ! i) idxs) h)"
proof (induction idxs arbitrary: h out)
  case Nil
  show ?case by simp
next
  case (Cons i idxs)
  from decode_step_ok [OF assms, of e m "emb ! i" h]
  obtain w h' a where "decode_step M e m (emb ! i) h = Inr (w, h', a)" by blast
  then show ?case by (simp add: Cons.IH)
qed

lemma teacher_forced_props:
  assumes "modules_ok M"
  shows "length (teacher_forced M e m xs h) = length xs \<and>
         (rect bs xs \<longrightarrow> shape3 bs (trg_vocab_size M) (teacher_forced M e m xs h)) \<and>
         (\<forall>w \<in> set (teacher_forced M e m xs h). \<forall>v \<in> set w. sum_list (map exp v) = 1)"
proof (induction xs arbitrary: h)
  case Nil
  show ?case by (simp add: shape3_def)
next
  case (Cons x xs)
  from decode_step_ok [OF assms, of e m x h]
  obtain w h' a where s: "decode_step M e m x h = Inr (w, h', a)" "length w = length x"
    "\<forall>v \<in> set w. length v = trg_vocab_size M \<and> sum_list (map exp v) = 1" by blast
  from Cons [of h'] s show ?case
    by (auto simp: rect_def shape3_def list_all_iff)
qed

lemma map_nth_upt_take: "n \<le> length xs \<Longrightarrow> map (\<lambda>i. xs ! i) [0..<n] = take n xs"
  by (rule nth_equalityI) simp_all

lemma decode_tf:
  assumes ok: "modules_ok M" and L: "2 \<le> length trg" and r: "rect bs trg"
    and el: "length (embed_trg M trg) = length trg"
  shows "decode M enc msk trg =
         Inr (teacher_forced M enc msk (take (length trg - 1) (embed_trg M trg)) (get_init_hx M bs))"
proof -
  from L have ne: "trg \<noteq> []" by auto
  have bs: "size1 trg = bs" using ne r by (rule size1_rect)
  have tk: "map (\<lambda>i. embed_trg M trg ! i) [0..<length trg - 1] = take (length trg - 1) (embed_trg M trg)"
    using el by (intro map_nth_upt_take) simp
  have len: "length (teacher_forced M enc msk (take (length trg - 1) (embed_trg M trg)) (get_init_hx M bs))
             = length trg - 1"
    using teacher_forced_props [OF ok, of enc msk "take (length trg - 1) (embed_trg M trg)"] el
    by simp
  then have nz: "teacher_forced M enc msk (take (length trg - 1) (embed_trg M trg)) (get_init_hx M bs) \<noteq> []"
    using L by auto
  have dl: "decode_loop M enc msk (embed_trg M trg) [0..<length trg - 1] (get_init_hx M bs) [] =
            Inr (teacher_forced M enc msk (take (length trg - 1) (embed_trg M trg)) (get_init_hx M bs))"
    using decode_loop_tf [OF ok, of enc msk "embed_trg M trg" "[0..<length trg - 1]" "get_init_hx M bs" "[]"]
    by (simp only: tk append_Nil)
  show ?thesis
    unfolding decode_def Let_def bs dl using nz by (simp add: torch_stack_def)
qed

lemma decode_single_row: "decode M enc msk [row] = Inl RuntimeError"
  by (simp add: decode_def Let_def torch_stack_def)

lemma toy_ok: "modules_ok toy_transducer"
  by (simp add: modules_ok_def toy_transducer_def)

lemma teacher_forced_snoc:
  assumes "modules_ok M"
  shows "\<exists>w. teacher_forced M e m (xs @ [x]) h = teacher_forced M e m xs h @ [w] \<and>
             length w = length x \<and> list_all (\<lambda>v. length v = trg_vocab_size M) w"
proof (induction xs arbitrary: h)
  case Nil
  from decode_step_ok [OF assms, of e m x h]
  obtain w h' a where "decode_step M e m x h = Inr (w, h', a)" "length w = length x"
    "\<forall>v \<in> set w. length v = trg_vocab_size M \<and> sum_list (map exp v) = 1" by blast
  then show ?case by (auto simp: list_all_iff)
next
  case (Cons y ys)
  from decode_step_ok [OF assms, of e m y h]
  obtain w h' a where s: "decode_step M e m y h = Inr (w, h', a)" by blast
  from Cons [of h'] s show ?case by auto
qed

lemma get_loss_append_pad:
  assumes ok: "modules_ok M" and L: "2 \<le> length trg" and r: "rect bs trg"
    and el: "length (embed_trg M trg) = length trg" and er: "rect bs (embed_trg M trg)"
    and ex: "embed_trg M (trg @ [replicate bs PAD]) = embed_trg M trg @ [x]" and lx: "length x = bs"
  shows "get_loss M PAD src msk (trg @ [replicate bs PAD]) = get_loss M PAD src msk trg"
proof -
  let ?V = "trg_vocab_size M"
  let ?e = "encode M src"
  let ?h = "get_init_hx M bs"
  let ?emb = "embed_trg M trg"
  let ?out = "teacher_forced M ?e msk (take (length trg - 1) ?emb) ?h"
  let ?trg' = "trg @ [replicate bs PAD]"
  have d: "decode M ?e msk trg = Inr ?out" using ok L r el by (rule decode_tf)
  have r': "rect bs ?trg'" using r by (simp add: rect_def)
  have L': "2 \<le> length ?trg'" using L by simp
  have el': "length (embed_trg M ?trg') = length ?trg'" using el ex by simp
  have tk: "take (length ?trg' - 1) (embed_trg M ?trg') = ?emb" using el ex by simp
  have d': "decode M ?e msk ?trg' = Inr (teacher_forced M ?e msk ?emb ?h)"
    using decode_tf [OF ok L' r' el', of ?e msk] unfolding tk .
  from L el have ne: "?emb \<noteq> []" by auto
  then have sp: "?emb = take (length trg - 1) ?emb @ [last ?emb]"
    using el by (metis append_butlast_last_id butlast_conv_take)
  from teacher_forced_snoc [OF ok, of ?e msk "take (length trg - 1) ?emb" "last ?emb" ?h]
  obtain w where w: "teacher_forced M ?e msk (take (length trg - 1) ?emb @ [last ?emb]) ?h = ?out @ [w]"
    "length w = length (last ?emb)" "list_all (\<lambda>v. length v = ?V) w" by blast
  have "last ?emb \<in> set ?emb" using ne by simp
  with er have "length (last ?emb) = bs" by (auto simp: rect_def list_all_iff)
  with w have lw: "length w = bs" by simp
  have tf: "teacher_forced M ?e msk ?emb ?h = ?out @ [w]" using w(1) sp by simp
  have rx: "rect bs (take (length trg - 1) ?emb)"
    using er by (auto simp: rect_def list_all_iff dest: in_set_takeD)
  have sh: "shape3 bs ?V ?out"
    using teacher_forced_props [OF ok, of ?e msk "take (length trg - 1) ?emb" ?h bs] rx by simp
  have V: "0 < ?V" using ok by (simp add: modules_ok_def)
  from L have "trg \<noteq> []" by auto
  then have tl: "tl ?trg' = tl trg @ [replicate bs PAD]" by simp
  show ?thesis
    unfolding get_loss_def forward_def d d' tf tl
    using loss_append_pad [OF V sh lw w(3), of PAD "tl trg"] by simp
qed

section \<open>C9: Transducer.decode is teacher forcing over all but the last target row\<close>

text \<open>
  Claim C9, as amended. For a target batch of length \<open>L \<ge> 2\<close>, \<open>Transducer.decode\<close>
  returns the stack of exactly \<open>L - 1\<close> per-step outputs: the decode step run over the
  embeddings of target rows \<open>0..L-2\<close> in order (teacher forcing), with the hidden state
  threaded from a freshly zero-initialized decoder hidden state, the one \<open>get_init_hx\<close>
  creates for the batch: every layer's hidden and cell tensor is all zeros. The stack has
  shape (\<open>L - 1\<close>, batch, trg\_vocab\_size), and the exponentials of every vocabulary
  vector sum to 1. The modules are assumed to keep the batch size and the final projection
  to return trg\_vocab\_size scores.
\<close>

theorem decode_teacher_forcing:
  assumes "modules_ok M" and "2 \<le> length trg" and "rect bs trg"
    and "length (embed_trg M trg) = length trg" and "rect bs (embed_trg M trg)"
  shows "\<exists>out. decode M enc msk trg = Inr out \<and>
           out = teacher_forced M enc msk (take (length trg - 1) (embed_trg M trg)) (get_init_hx M bs) \<and>
           get_init_hx M bs =
             replicate (trg_nb_layers M)
               (replicate bs (replicate (trg_hid_size M) 0), replicate bs (replicate (trg_hid_size M) 0)) \<and>
           length out = length trg - 1 \<and>
           shape3 bs (trg_vocab_size M) out \<and>
           list_all (list_all (\<lambda>v. sum_list (map exp v) = 1)) out"
proof -
  let ?xs = "take (length trg - 1) (embed_trg M trg)"
  let ?out = "teacher_forced M enc msk ?xs (get_init_hx M bs)"
  have d: "decode M enc msk trg = Inr ?out"
    using assms(1-4) by (rule decode_tf)
  have r: "rect bs ?xs"
    using assms(5) by (auto simp: rect_def list_all_iff dest: in_set_takeD)
  from teacher_forced_props [OF assms(1), of enc msk ?xs "get_init_hx M bs" bs] r assms(4)
  have "length ?out = length trg - 1" "shape3 bs (trg_vocab_size M) ?out"
    "list_all (list_all (\<lambda>v. sum_list (map exp v) = 1)) ?out"
    by (simp_all add: list_all_iff)
  moreover have "get_init_hx M bs =
             replicate (trg_nb_layers M)
               (replicate bs (replicate (trg_hid_size M) 0), replicate bs (replicate (trg_hid_size M) 0))"
    by (simp add: get_init_hx_def)
  ultimately show ?thesis using d by blast
qed

theorem decode_teacher_forcing_witness:
  "decode toy_transducer ([], []) [] [[1, 0], [0, 1], [1, 1]] =
     Inr [[[- ln 2, - ln 2], [- ln 2, - ln 2]], [[- ln 2, - ln 2], [- ln 2, - ln 2]]] \<and>
   get_init_hx (toy_transducer :: (lstm_state, unit) transducer) 2 = [([[0], [0]], [[0], [0]])]"
proof -
  let ?T = "toy_transducer :: (lstm_state, unit) transducer"
  have h0: "modules_ok ?T" by (rule toy_ok)
  have h: "2 \<le> length [[1, 0], [0, 1], [1, 1 :: int]]"
    "rect 2 [[1, 0], [0, 1], [1, 1 :: int]]"
    "length (embed_trg ?T [[1, 0], [0, 1], [1, 1]]) = length [[1, 0], [0, 1], [1, 1 :: int]]"
    "rect 2 (embed_trg ?T [[1, 0], [0, 1], [1, 1]])"
    by (simp_all add: rect_def toy_transducer_def)
  from decode_teacher_forcing [OF h0 h, of "([], [])" "[]"]
  obtain out where o: "decode ?T ([], []) [] [[1, 0], [0, 1], [1, 1]] = Inr out"
    "out = teacher_forced ?T ([], []) []
             (take (length [[1, 0], [0, 1], [1, 1 :: int]] - 1)
                (embed_trg ?T [[1, 0], [0, 1], [1, 1]])) (get_init_hx ?T 2)"
    by blast
  have "out = [[[- ln 2, - ln 2], [- ln 2, - ln 2]], [[- ln 2, - ln 2], [- ln 2, - ln 2]]]"
    unfolding o(2)
    by (simp add: toy_transducer_def decode_step_def cat_dim1_def log_softmax_def logsumexp_def)
  moreover have "get_init_hx ?T 2 = [([[0], [0]], [[0], [0]])]"
    by (simp add: get_init_hx_def toy_transducer_def numeral_2_eq_2)
  ultimately show ?thesis using o(1) by simp
qed

text \<open>
  For \<open>L = 1\<close> the loop body never runs and \<^verbatim>\<open>torch.stack\<close> is given an empty list,
  which it refuses: decode raises instead of returning an output of length 0.
\<close>

theorem decode_length_one_counterexample:
  "decode toy_transducer ([], []) [] [[1, 0]] = Inl RuntimeError"
  by (rule decode_single_row)

section \<open>C4: a row of PAD targets leaves the loss unchanged\<close>

text \<open>
  Claim C4. Appending a target row that consists of PAD only (together with the prediction
  row that decoding produces for it) does not change the value of \<open>Transducer.loss\<close>: the
  PAD positions add nothing to the sum of negative log-likelihoods and nothing to the
  count the sum is divided by. Hence \<open>get_loss\<close> is unchanged as well when the target
  batch gets a PAD row appended, for a target of length at least 2 and an embedding that
  treats the rows it already had as before.
\<close>

theorem loss_pad_row_invariant:
  "(0 < V \<and> shape3 bs V predict \<and> length p = bs \<and> list_all (\<lambda>v. length v = V) p \<longrightarrow>
      loss V PAD (predict @ [p]) (target @ [replicate bs PAD]) = loss V PAD predict target) \<and>
   (modules_ok M \<and> 2 \<le> length trg \<and> rect bs trg \<and>
    length (embed_trg M trg) = length trg \<and> rect bs (embed_trg M trg) \<and>
    embed_trg M (trg @ [replicate bs PAD]) = embed_trg M trg @ [x] \<and> length x = bs \<longrightarrow>
      get_loss M PAD src msk (trg @ [replicate bs PAD]) = get_loss M PAD src msk trg)"
  using loss_append_pad [of V bs predict p PAD target]
    get_loss_append_pad [of M trg bs PAD x src msk]
  by blast

theorem loss_pad_row_invariant_witness:
  "loss 2 0 ([[[- 1, - 2], [- 3, - 4]]] @ [[[- 9, - 9], [- 9, - 9]]]) ([[1, 1]] @ [replicate 2 0])
     = loss 2 0 [[[- 1, - 2], [- 3, - 4]]] [[1, 1]] \<and>
   get_loss toy_transducer 0 () [] ([[1, 0], [0, 1], [1, 1]] @ [replicate 2 0])
     = get_loss toy_transducer 0 () [] [[1, 0], [0, 1], [1, 1]]"
proof -
  have a: "0 < (2::nat) \<and> shape3 2 2 [[[- 1, - 2], [- 3, - 4 :: real]]] \<and>
           length [[- 9, - 9], [- 9, - 9 :: real]] = 2 \<and>
           list_all (\<lambda>v. length v = 2) [[- 9, - 9], [- 9, - 9 :: real]]"
    by (simp add: shape3_def)
  have b0: "modules_ok toy_transducer" by (rule toy_ok)
  have b: "2 \<le> length [[1, 0], [0, 1], [1, 1 :: int]] \<and>
           rect 2 [[1, 0], [0, 1], [1, 1 :: int]] \<and>
           length (embed_trg toy_transducer [[1, 0], [0, 1], [1, 1]]) = length [[1, 0], [0, 1], [1, 1 :: int]] \<and>
           rect 2 (embed_trg toy_transducer [[1, 0], [0, 1], [1, 1]]) \<and>
           embed_trg toy_transducer ([[1, 0], [0, 1], [1, 1]] @ [replicate 2 0])
             = embed_trg toy_transducer [[1, 0], [0, 1], [1, 1]] @ [[[0], [0]]] \<and>
           length [[0], [0 :: real]] = 2"
    by (simp add: rect_def toy_transducer_def numeral_2_eq_2)
  from loss_pad_row_invariant [where V = 2 and bs = 2 and predict = "[[[- 1, - 2], [- 3, - 4]]]"
      and p = "[[- 9, - 9], [- 9, - 9]]" and PAD = 0 and target = "[[1, 1]]"
      and M = toy_transducer and trg = "[[1, 0], [0, 1], [1, 1]]" and x = "[[0], [0]]"
      and src = "()" and msk = "[]"] a b0 b
  show ?thesis by blast
qed

lemma hm_select_int_assert:
  "size1 source \<noteq> 1 \<Longrightarrow> hm_select source (IntPos p) = Inl AssertionError"
  by (simp add: hm_select_def)

lemma hm_select_int:
  "size1 source = 1 \<Longrightarrow> valid_index (length source) p \<Longrightarrow>
   hm_select source (IntPos p) = Inr (source ! norm_index (length source) p)"
  by (simp add: hm_select_def py_index_valid)

lemma hm_select_int_range:
  "size1 source = 1 \<Longrightarrow> \<not> valid_index (length source) p \<Longrightarrow>
   hm_select source (IntPos p) = Inl IndexError"
  by (simp add: hm_select_def py_index_invalid)

lemma hm_select_tensor_single:
  assumes "source \<noteq> []" "rect 1 source" "valid_index (length source) p"
  shows "hm_select source (TensorPos [[p]]) = Inr (source ! norm_index (length source) p)"
proof -
  have i: "[[p]] \<noteq> []" "rect 1 [[p]]" by (simp_all add: rect_def)
  have ok: "list_all (list_all (valid_index (length source))) [[p]]" using assms(3) by simp
  let ?j = "norm_index (length source) p"
  have "?j < length source" using assms(3) by (rule norm_index_less)
  then have "source ! ?j \<in> set source" by simp
  with assms(2) have "length (source ! ?j) = 1" by (auto simp: rect_def list_all_iff)
  then have row: "[source ! ?j ! 0] = source ! ?j"
    by (cases "source ! ?j") simp_all
  have "fancy_gather source [[p]] = Inr [[source ! ?j ! 0]]"
    using fancy_gather_valid [OF assms(1,2) i _ ok] by simp
  then show ?thesis by (simp add: hm_select_def squeeze0_def row)
qed

section \<open>C10: an integer pointer needs batch size 1\<close>

text \<open>
  Claim C10. When \<open>HardMonoTransducer.decode_step\<close> gets a plain integer as pointer, it
  fails its assertion unless the batch size is exactly 1, and otherwise continues with the
  encoder state at that source position (a position outside the source raises
  IndexError). Only a tensor-valued pointer goes through \<open>fancy_gather\<close>, for any batch
  size; for batch size 1 the tensor pointer \<open>[[p]]\<close> selects the same encoder state as the
  integer \<open>p\<close>.
\<close>

theorem hm_decode_step_pointer_kinds:
  "(size1 source \<noteq> 1 \<longrightarrow>
      hm_decode_step M (source, attr) enc_mask inp hidden (IntPos p) = Inl AssertionError) \<and>
   (size1 source = 1 \<and> valid_index (length source) p \<longrightarrow>
      hm_decode_step M (source, attr) enc_mask inp hidden (IntPos p) =
        hm_finish M attr inp hidden (source ! norm_index (length source) p)) \<and>
   (size1 source = 1 \<and> \<not> valid_index (length source) p \<longrightarrow>
      hm_decode_step M (source, attr) enc_mask inp hidden (IntPos p) = Inl IndexError) \<and>
   hm_decode_step M (source, attr) enc_mask inp hidden (TensorPos index) =
     (case fancy_gather source index of
        Inl e \<Rightarrow> Inl e
      | Inr g \<Rightarrow> (case squeeze0 g of
                    Inl e \<Rightarrow> Inl e
                  | Inr ctx \<Rightarrow> hm_finish M attr inp hidden ctx)) \<and>
   (source \<noteq> [] \<and> rect 1 source \<and> valid_index (length source) p \<longrightarrow>
      hm_decode_step M (source, attr) enc_mask inp hidden (TensorPos [[p]]) =
        hm_decode_step M (source, attr) enc_mask inp hidden (IntPos p))"
proof (intro conjI impI)
  assume "size1 source \<noteq> 1"
  then show "hm_decode_step M (source, attr) enc_mask inp hidden (IntPos p) = Inl AssertionError"
    by (simp add: hm_decode_step_def hm_select_int_assert)
next
  assume "size1 source = 1 \<and> valid_index (length source) p"
  then show "hm_decode_step M (source, attr) enc_mask inp hidden (IntPos p) =
        hm_finish M attr inp hidden (source ! norm_index (length source) p)"
    by (simp add: hm_decode_step_def hm_select_int)
next
  assume "size1 source = 1 \<and> \<not> valid_index (length source) p"
  then show "hm_decode_step M (source, attr) enc_mask inp hidden (IntPos p) = Inl IndexError"
    by (simp add: hm_decode_step_def hm_select_int_range)
next
  show "hm_decode_step M (source, attr) enc_mask inp hidden (TensorPos index) =
     (case fancy_gather source index of
        Inl e \<Rightarrow> Inl e
      | Inr g \<Rightarrow> (case squeeze0 g of
                    Inl e \<Rightarrow> Inl e
                  | Inr ctx \<Rightarrow> hm_finish M attr inp hidden ctx))"
    by (simp add: hm_decode_step_def hm_select_def split: sum.splits)
next
  assume h: "source \<noteq> [] \<and> rect 1 source \<and> valid_index (length source) p"
  then have "size1 source = 1" by (simp add: size1_rect)
  with h show "hm_decode_step M (source, attr) enc_mask inp hidden (TensorPos [[p]]) =
        hm_decode_step M (source, attr) enc_mask inp hidden (IntPos p)"
    by (simp add: hm_decode_step_def hm_select_int hm_select_tensor_single)
qed

theorem hm_decode_step_pointer_kinds_witness:
  "hm_decode_step toy_transducer ([[[1, 2], [5, 6]], [[3, 4], [7, 8]]], None) [] [[0], [0]] () (IntPos 1)
     = Inl AssertionError \<and>
   hm_decode_step toy_transducer ([[[1, 2]], [[3, 4]]], None) [] [[0]] () (IntPos 1)
     = Inr ([[- ln 2, - ln 2]], ()) \<and>
   hm_decode_step toy_transducer ([[[1, 2]], [[3, 4]]], None) [] [[0]] () (IntPos 2)
     = Inl IndexError \<and>
   hm_decode_step toy_transducer ([[[1, 2]], [[3, 4]]], None) [] [[0]] () (TensorPos [[1]])
     = Inr ([[- ln 2, - ln 2]], ())"
proof -
  have a: "hm_decode_step toy_transducer ([[[1, 2], [5, 6]], [[3, 4], [7, 8]]], None) [] [[0], [0]] ()
             (IntPos 1) = Inl AssertionError"
    using hm_decode_step_pointer_kinds [of "[[[1, 2], [5, 6]], [[3, 4], [7, 8]]]" toy_transducer None
        "[]" "[[0], [0]]" "()" 1 "[]"]
    by (simp add: size1_def)
  have fin: "hm_finish toy_transducer None [[0]] () [[3, 4]] = Inr ([[- ln 2, - ln 2]], ())"
    by (simp add: hm_finish_def cat_dim1_def toy_transducer_def log_softmax_def logsumexp_def)
  have b: "hm_decode_step toy_transducer ([[[1, 2]], [[3, 4]]], None) [] [[0]] () (IntPos 1)
             = Inr ([[- ln 2, - ln 2]], ())"
    using hm_decode_step_pointer_kinds [of "[[[1, 2]], [[3, 4]]]" toy_transducer None
        "[]" "[[0]]" "()" 1 "[]"] fin
    by (simp add: size1_def valid_index_def norm_index_def)
  have c: "hm_decode_step toy_transducer ([[[1, 2]], [[3, 4]]], None) [] [[0]] () (IntPos 2)
             = Inl IndexError"
    using hm_decode_step_pointer_kinds [of "[[[1, 2]], [[3, 4]]]" toy_transducer None
        "[]" "[[0]]" "()" 2 "[]"]
    by (simp add: size1_def valid_index_def)
  have d: "hm_decode_step toy_transducer ([[[1, 2]], [[3, 4]]], None) [] [[0]] () (TensorPos [[1]])
             = Inr ([[- ln 2, - ln 2]], ())"
    using hm_decode_step_pointer_kinds [of "[[[1, 2]], [[3, 4]]]" toy_transducer None
        "[]" "[[0]]" "()" 1 "[]"] b
    by (simp add: size1_def valid_index_def rect_def)
  from a b c d show ?thesis by simp
qed

lemma map2_nth_form:
  "length xs = n \<Longrightarrow> length ys = n \<Longrightarrow> map2 f xs ys = map (\<lambda>i. f (xs ! i) (ys ! i)) [0..<n]"
  by (rule nth_equalityI) simp_all

lemma mono_mask_form:
  assumes "length t0 = n" "list_all (\<lambda>r. length r = n) t0"
  shows "map (map (\<lambda>x. (x - 1) * - ln EPSILON)) (triu (ones_like t0)) =
         map (\<lambda>i. map (\<lambda>j. if j < i then ln EPSILON else 0) [0..<n]) [0..<n]"
proof -
  have len: "\<And>i. i < n \<Longrightarrow> length (t0 ! i) = n"
    using assms by (auto simp: list_all_iff)
  show ?thesis
    using assms(1) len by (auto simp: triu_def ones_like_def)
qed

lemma masked_matrix_form:
  assumes "length m = n" "list_all (\<lambda>r. length r = n) m"
  shows "map2 (map2 (+)) m (map (\<lambda>i. map (\<lambda>j. if j < i then ln EPSILON else 0) [0..<n]) [0..<n]) =
         map (\<lambda>i. map (\<lambda>j. penalised m i j) [0..<n]) [0..<n]"
proof -
  have len: "\<And>i. i < n \<Longrightarrow> length (m ! i) = n"
    using assms by (auto simp: list_all_iff)
  have "map2 (map2 (+)) m (map (\<lambda>i. map (\<lambda>j. if j < i then ln EPSILON else 0) [0..<n]) [0..<n]) =
        map (\<lambda>i. map2 (+) (m ! i) (map (\<lambda>j. if j < i then ln EPSILON else 0) [0..<n])) [0..<n]"
    using assms(1) by (subst map2_nth_form [of _ n]) simp_all
  also have "\<dots> = map (\<lambda>i. map (\<lambda>j. penalised m i j) [0..<n]) [0..<n]"
  proof (rule map_cong [OF refl])
    fix i assume "i \<in> set [0..<n]"
    then have i: "i < n" by simp
    show "map2 (+) (m ! i) (map (\<lambda>j. if j < i then ln EPSILON else 0) [0..<n]) =
          map (\<lambda>j. penalised m i j) [0..<n]"
      using len [OF i] by (subst map2_nth_form [of _ n]) (simp_all add: penalised_def)
  qed
  finally show ?thesis .
qed

lemma mono_constrain_form:
  assumes ne: "trn \<noteq> []" and sh: "shape3 n n trn"
  shows "mono_constrain trn =
         Inr (map (\<lambda>m. map (\<lambda>i. map (\<lambda>j. penalised m i j
                                          - ln (\<Sum>k \<leftarrow> [0..<n]. exp (penalised m i k))) [0..<n])
                         [0..<n]) trn)"
proof -
  from ne obtain t0 ts where t: "trn = t0 # ts" by (cases trn) auto
  with sh have t0: "length t0 = n" "list_all (\<lambda>r. length r = n) t0"
    by (simp_all add: shape3_def)
  have step: "\<And>m. m \<in> set trn \<Longrightarrow>
      map (\<lambda>row. map (\<lambda>x. x - logsumexp row) row)
        (map2 (map2 (+)) m (map (map (\<lambda>x. (x - 1) * - ln EPSILON)) (triu (ones_like t0)))) =
      map (\<lambda>i. map (\<lambda>j. penalised m i j - ln (\<Sum>k \<leftarrow> [0..<n]. exp (penalised m i k))) [0..<n]) [0..<n]"
  proof -
    fix m assume "m \<in> set trn"
    with sh have m: "length m = n" "list_all (\<lambda>r. length r = n) m"
      by (auto simp: shape3_def list_all_iff)
    show "map (\<lambda>row. map (\<lambda>x. x - logsumexp row) row)
        (map2 (map2 (+)) m (map (map (\<lambda>x. (x - 1) * - ln EPSILON)) (triu (ones_like t0)))) =
      map (\<lambda>i. map (\<lambda>j. penalised m i j - ln (\<Sum>k \<leftarrow> [0..<n]. exp (penalised m i k))) [0..<n]) [0..<n]"
      unfolding mono_mask_form [OF t0] masked_matrix_form [OF m]
      by (simp add: logsumexp_def o_def)
  qed
  have "mono_constrain trn =
        Inr (map (\<lambda>m. map (\<lambda>row. map (\<lambda>x. x - logsumexp row) row)
                (map2 (map2 (+)) m (map (map (\<lambda>x. (x - 1) * - ln EPSILON)) (triu (ones_like t0))))) trn)"
    by (simp add: mono_constrain_def t Let_def o_def)
  also have "\<dots> = Inr (map (\<lambda>m. map (\<lambda>i. map (\<lambda>j. penalised m i j
                                          - ln (\<Sum>k \<leftarrow> [0..<n]. exp (penalised m i k))) [0..<n])
                         [0..<n]) trn)"
    using step by (simp cong: map_cong)
  finally show ?thesis .
qed


lemma EPSILON_pos: "0 < EPSILON"
  by (simp add: EPSILON_def)

lemma sum_exp_upt_pos: "0 < n \<Longrightarrow> 0 < (\<Sum>k \<leftarrow> [0..<n]. exp (f k :: real))"
proof (induction n)
  case 0
  then show ?case by simp
next
  case (Suc n)
  have "0 \<le> (\<Sum>k \<leftarrow> [0..<n]. exp (f k))" by (rule sum_list_nonneg) auto
  moreover have "0 < exp (f n)" by simp
  ultimately show ?case by (simp add: add_nonneg_pos)
qed

lemma log_normalised_row:
  assumes "0 < n"
  shows "(\<Sum>j \<leftarrow> [0..<n]. exp (f j - ln (\<Sum>k \<leftarrow> [0..<n]. exp (f k :: real)))) = 1"
proof -
  let ?S = "\<Sum>k \<leftarrow> [0..<n]. exp (f k)"
  have S: "0 < ?S" using assms by (rule sum_exp_upt_pos)
  have "(\<Sum>j \<leftarrow> [0..<n]. exp (f j - ln ?S)) = (\<Sum>j \<leftarrow> [0..<n]. exp (f j) / ?S)"
    using S by (simp add: exp_diff)
  also have "\<dots> = ?S / ?S" by (rule sum_list_divide)
  also have "\<dots> = 1" using S by simp
  finally show ?thesis .
qed

lemma penalised_uniform3:
  "i < 3 \<Longrightarrow> j < 3 \<Longrightarrow> penalised uniform3 i j = ln (if j < i then EPSILON / 3 else 1 / 3)"
  using EPSILON_pos by (simp add: penalised_def uniform3_def ln_div)

lemma ln_frac: "0 < a \<Longrightarrow> 0 < b \<Longrightarrow> ln a - ln b = ln (a / (b :: real))"
  by (simp add: ln_div)

lemma mono_uniform3:
  "mono_constrain [uniform3] =
     Inr [[[ln (1 / 3), ln (1 / 3), ln (1 / 3)],
           [ln (EPSILON / (2 + EPSILON)), ln (1 / (2 + EPSILON)), ln (1 / (2 + EPSILON))],
           [ln (EPSILON / (1 + 2 * EPSILON)), ln (EPSILON / (1 + 2 * EPSILON)),
            ln (1 / (1 + 2 * EPSILON))]]]"
proof -
  have sh: "shape3 3 3 [uniform3]" by (simp add: shape3_def uniform3_def list_all_iff)
  have u3: "[0..<3] = [0, 1, 2]" by (simp add: upt_conv_Cons)
  note e = EPSILON_pos
  have p: "penalised uniform3 0 0 = ln (1 / 3)" "penalised uniform3 0 1 = ln (1 / 3)"
    "penalised uniform3 0 2 = ln (1 / 3)"
    "penalised uniform3 1 0 = ln (EPSILON / 3)" "penalised uniform3 1 1 = ln (1 / 3)"
    "penalised uniform3 1 2 = ln (1 / 3)"
    "penalised uniform3 2 0 = ln (EPSILON / 3)" "penalised uniform3 2 1 = ln (EPSILON / 3)"
    "penalised uniform3 2 2 = ln (1 / 3)"
    by (simp_all add: penalised_uniform3)
  have x: "exp (ln (EPSILON / 3)) = EPSILON / 3" "exp (ln (1 / 3 :: real)) = 1 / 3"
    using e by simp_all
  have r0: "ln (1 / 3) - ln (1 / 3 + 1 / 3 + 1 / 3 :: real) = ln (1 / 3)" by simp
  have r1a: "ln (EPSILON / 3) - ln (EPSILON / 3 + 1 / 3 + 1 / 3) = ln (EPSILON / (2 + EPSILON))"
    using e by (subst ln_frac) (simp_all add: field_simps)
  have r1b: "ln (1 / 3) - ln (EPSILON / 3 + 1 / 3 + 1 / 3) = ln (1 / (2 + EPSILON))"
    using e by (subst ln_frac) (simp_all add: field_simps)
  have r2a: "ln (EPSILON / 3) - ln (EPSILON / 3 + EPSILON / 3 + 1 / 3) = ln (EPSILON / (1 + 2 * EPSILON))"
    using e by (subst ln_frac) (simp_all add: field_simps)
  have r2b: "ln (1 / 3) - ln (EPSILON / 3 + EPSILON / 3 + 1 / 3) = ln (1 / (1 + 2 * EPSILON))"
    using e by (subst ln_frac) (simp_all add: field_simps)
  show ?thesis
    unfolding mono_constrain_form [OF _ sh, simplified]
    by (simp only: u3 list.map sum_list.Cons sum_list.Nil p x r0 r1a r1b r2a r2b add_0_right
        add.assoc [symmetric])
qed

lemma mono_uniform3_bounds:
  "EPSILON / (2 + EPSILON) < 1 / 1000000 \<and> EPSILON / (1 + 2 * EPSILON) < 1 / 1000000 \<and>
   \<bar>1 / (2 + EPSILON) - 1 / 2\<bar> < 1 / 1000000 \<and> \<bar>1 / (1 + 2 * EPSILON) - 1\<bar> < 1 / 1000000"
  by (simp add: EPSILON_def)

section \<open>C6: MonoHMMTransducer penalises backward transitions and renormalises\<close>

text \<open>
  Claim C6. On the parent's transition tensor, \<open>MonoHMMTransducer.decode_step\<close> takes
  the penalty \<open>- ln EPSILON\<close> off every entry strictly below the main diagonal (the
  upper-triangular mask is 0 on and above the diagonal) and then subtracts from every row
  its own logsumexp, so that the exponentials of every row sum to 1. For three states
  with every transition probability 1/3 the resulting probabilities are exactly
  1/3, 1/3, 1/3 in row 0, \<open>e/(2+e), 1/(2+e), 1/(2+e)\<close> in row 1 and
  \<open>e/(1+2e), e/(1+2e), 1/(1+2e)\<close> in row 2, with \<open>e = EPSILON\<close>: within one millionth of
  [[1/3, 1/3, 1/3], [0, 1/2, 1/2], [0, 0, 1]].
\<close>

theorem mono_constrain_masks_backward:
  "(trn \<noteq> [] \<and> shape3 n n trn \<longrightarrow>
      mono_constrain trn =
        Inr (map (\<lambda>m. map (\<lambda>i. map (\<lambda>j. penalised m i j
                                         - ln (\<Sum>k \<leftarrow> [0..<n]. exp (penalised m i k))) [0..<n])
                        [0..<n]) trn)) \<and>
   (0 < n \<longrightarrow>
      (\<Sum>j \<leftarrow> [0..<n]. exp (penalised m i j - ln (\<Sum>k \<leftarrow> [0..<n]. exp (penalised m i k)))) = 1) \<and>
   mono_constrain [uniform3] =
     Inr [[[ln (1 / 3), ln (1 / 3), ln (1 / 3)],
           [ln (EPSILON / (2 + EPSILON)), ln (1 / (2 + EPSILON)), ln (1 / (2 + EPSILON))],
           [ln (EPSILON / (1 + 2 * EPSILON)), ln (EPSILON / (1 + 2 * EPSILON)),
            ln (1 / (1 + 2 * EPSILON))]]] \<and>
   EPSILON / (2 + EPSILON) < 1 / 1000000 \<and> EPSILON / (1 + 2 * EPSILON) < 1 / 1000000 \<and>
   \<bar>1 / (2 + EPSILON) - 1 / 2\<bar> < 1 / 1000000 \<and> \<bar>1 / (1 + 2 * EPSILON) - 1\<bar> < 1 / 1000000"
  using mono_constrain_form [of trn n] log_normalised_row [of n "penalised m i"]
    mono_uniform3 mono_uniform3_bounds
  by blast

theorem mono_constrain_masks_backward_witness:
  "mono_constrain [[[0, 0], [0, 0]]] =
     Inr [[[- ln 2, - ln 2], [ln EPSILON - ln (EPSILON + 1), - ln (EPSILON + 1)]]]"
proof -
  have h: "[[[0, 0], [0, 0 :: real]]] \<noteq> [] \<and> shape3 2 2 [[[0, 0], [0, 0 :: real]]]"
    by (simp add: shape3_def)
  have u2: "[0..<2] = [0, 1]" by (simp add: upt_conv_Cons)
  have p: "penalised [[0, 0], [0, 0]] 0 0 = 0" "penalised [[0, 0], [0, 0]] 0 (Suc 0) = 0"
    "penalised [[0, 0], [0, 0]] (Suc 0) 0 = ln EPSILON" "penalised [[0, 0], [0, 0]] (Suc 0) (Suc 0) = 0"
    by (simp_all add: penalised_def)
  have x: "exp (ln EPSILON) = EPSILON" using EPSILON_pos by simp
  from mono_constrain_masks_backward [of "[[[0, 0], [0, 0]]]" 2] h
  have "mono_constrain [[[0, 0], [0, 0]]] =
        Inr (map (\<lambda>m. map (\<lambda>i. map (\<lambda>j. penalised m i j
                                         - ln (\<Sum>k \<leftarrow> [0..<2]. exp (penalised m i k))) [0..<2])
                        [0..<2]) [[[0, 0], [0, 0]]])"
    by blast
  then show ?thesis by (simp add: u2 p x)
qed

lemma softmax_nth:
  "v < length xs \<Longrightarrow> softmax xs ! v = exp (xs ! v) / (\<Sum>x \<leftarrow> xs. exp x)"
  by (simp add: softmax_def)

lemma length_softmax [simp]: "length (softmax xs) = length xs"
  by (simp add: softmax_def)

lemma bmm1_form:
  assumes la: "length attns = bs" and lw: "length word_prob = bs"
    and ra: "\<And>b. b < bs \<Longrightarrow> length (attns ! b) = length (word_prob ! b)"
  shows "bmm1 attns word_prob =
         Inr (map (\<lambda>b. map (\<lambda>v. \<Sum>s \<leftarrow> [0..<length (word_prob ! b)]. attns ! b ! s * word_prob ! b ! s ! v)
                          [0..<size1 (word_prob ! b)]) [0..<bs])"
proof -
  have z: "zip attns word_prob = map (\<lambda>b. (attns ! b, word_prob ! b)) [0..<bs]"
    using la lw by (intro nth_equalityI) simp_all
  have "sequence (map (\<lambda>(a, W). bmm_row a W) (zip attns word_prob)) =
        Inr (map (\<lambda>b. map (\<lambda>v. \<Sum>s \<leftarrow> [0..<length (word_prob ! b)]. attns ! b ! s * word_prob ! b ! s ! v)
                          [0..<size1 (word_prob ! b)]) [0..<bs])"
    unfolding z map_map
    by (rule sequence_map_cong_Inr) (simp add: bmm_row_def ra)
  then show ?thesis using la lw by (simp add: bmm1_def)
qed

lemma ha_mixture_form:
  assumes S: "0 < length enc0" and e: "rect bs enc0"
    and r: "dec_rnn M inp hidden = (h_t, hidden')" and lh: "length h_t = bs"
    and a: "snd (attn M h_t (enc0, enc1) enc_mask) = attns" and la: "length attns = bs"
      "list_all (\<lambda>row. length row = length enc0) attns"
    and V: "\<And>v. length (final_out M v) = V"
  shows "ha_mixture M (enc0, enc1) enc_mask inp hidden =
         Inr (map (\<lambda>b. map (\<lambda>v. \<Sum>s \<leftarrow> [0..<length enc0].
                                    attns ! b ! s * (exp (ha_logit M h_t enc0 b s ! v)
                                                      / (\<Sum>x \<leftarrow> ha_logit M h_t enc0 b s. exp x)))
                          [0..<V]) [0..<bs],
              hidden', attns)"
proof -
  let ?S = "length enc0"
  from S have ne: "enc0 \<noteq> []" by auto
  have s1: "size1 enc0 = bs" using ne e by (rule size1_rect)
  let ?wp = "map (\<lambda>b. map (\<lambda>s. softmax (ha_logit M h_t enc0 b s)) [0..<?S]) [0..<bs]"
  have ec: "expand_cat h_t enc0 = Inr (map (\<lambda>b. map (\<lambda>s. h_t ! b @ enc0 ! s ! b) [0..<?S]) [0..<bs])"
    using lh s1 by (simp add: expand_cat_def)
  have wp: "map (map softmax) (map (map (final_out M)) (map (map (map tanh))
              (map (map (linear_out M)) (map (\<lambda>b. map (\<lambda>s. h_t ! b @ enc0 ! s ! b) [0..<?S]) [0..<bs]))))
            = ?wp"
    by (simp add: ha_logit_def o_def)
  have lwp: "length ?wp = bs" by simp
  have rows: "\<And>b. b < bs \<Longrightarrow> length (attns ! b) = length (?wp ! b)"
    using la by (simp add: list_all_iff)
  have sz: "\<And>b. b < bs \<Longrightarrow> size1 (?wp ! b) = V"
  proof -
    fix b assume "b < bs"
    then have "?wp ! b = map (\<lambda>s. softmax (ha_logit M h_t enc0 b s)) [0..<?S]" by simp
    moreover have "[0..<?S] = 0 # [Suc 0..<?S]" using S by (simp add: upt_conv_Cons)
    ultimately have "?wp ! b = softmax (ha_logit M h_t enc0 b 0)
                        # map (\<lambda>s. softmax (ha_logit M h_t enc0 b s)) [Suc 0..<?S]"
      by simp
    then show "size1 (?wp ! b) = V" by (simp add: size1_def V ha_logit_def)
  qed
  have "bmm1 attns ?wp =
        Inr (map (\<lambda>b. map (\<lambda>v. \<Sum>s \<leftarrow> [0..<length (?wp ! b)]. attns ! b ! s * ?wp ! b ! s ! v)
                          [0..<size1 (?wp ! b)]) [0..<bs])"
    using la(1) lwp rows by (rule bmm1_form)
  also have "\<dots> = Inr (map (\<lambda>b. map (\<lambda>v. \<Sum>s \<leftarrow> [0..<?S].
                                    attns ! b ! s * (exp (ha_logit M h_t enc0 b s ! v)
                                                      / (\<Sum>x \<leftarrow> ha_logit M h_t enc0 b s. exp x)))
                          [0..<V]) [0..<bs])"
  proof (rule arg_cong [where f = Inr], rule map_cong [OF refl])
    fix b assume "b \<in> set [0..<bs]"
    then have b: "b < bs" by simp
    have l: "length (?wp ! b) = ?S" using b by simp
    show "map (\<lambda>v. \<Sum>s \<leftarrow> [0..<length (?wp ! b)]. attns ! b ! s * ?wp ! b ! s ! v)
                          [0..<size1 (?wp ! b)] =
          map (\<lambda>v. \<Sum>s \<leftarrow> [0..<?S].
                                    attns ! b ! s * (exp (ha_logit M h_t enc0 b s ! v)
                                                      / (\<Sum>x \<leftarrow> ha_logit M h_t enc0 b s. exp x)))
                          [0..<V]"
      unfolding sz [OF b] l
    proof (rule map_cong [OF refl])
      fix v assume "v \<in> set [0..<V]"
      then have v: "v < V" by simp
      show "(\<Sum>s \<leftarrow> [0..<?S]. attns ! b ! s * ?wp ! b ! s ! v) =
            (\<Sum>s \<leftarrow> [0..<?S]. attns ! b ! s * (exp (ha_logit M h_t enc0 b s ! v)
                                                      / (\<Sum>x \<leftarrow> ha_logit M h_t enc0 b s. exp x)))"
      proof (rule arg_cong [where f = sum_list], rule map_cong [OF refl])
        fix s assume "s \<in> set [0..<?S]"
        then have s: "s < ?S" by simp
        have "?wp ! b ! s = softmax (ha_logit M h_t enc0 b s)" using b s by simp
        moreover have "v < length (ha_logit M h_t enc0 b s)" using v V by (simp add: ha_logit_def)
        ultimately show "attns ! b ! s * ?wp ! b ! s ! v =
              attns ! b ! s * (exp (ha_logit M h_t enc0 b s ! v)
                                 / (\<Sum>x \<leftarrow> ha_logit M h_t enc0 b s. exp x))"
          by (simp add: softmax_nth)
      qed
    qed
  qed
  finally have b: "bmm1 attns ?wp = Inr (map (\<lambda>b. map (\<lambda>v. \<Sum>s \<leftarrow> [0..<?S].
                                    attns ! b ! s * (exp (ha_logit M h_t enc0 b s ! v)
                                                      / (\<Sum>x \<leftarrow> ha_logit M h_t enc0 b s. exp x)))
                          [0..<V]) [0..<bs])" .
  show ?thesis
    unfolding ha_mixture_def Let_def r a fst_conv prod.case ec sum.case wp b ..
qed

section \<open>C5: hard attention mixes probabilities and takes the logarithm last\<close>

text \<open>
  Claim C5. \<open>HardAttnTransducer.decode_step\<close> returns, for batch example \<open>b\<close> and
  vocabulary entry \<open>v\<close>, the logarithm of the attention-weighted sum over the source
  positions \<open>s\<close> of the softmax probability of \<open>v\<close> at position \<open>s\<close>: the softmax is taken
  per source position, in linear space, the weighted sum is linear, and only the mixed
  vector is taken to log space. The shapes are those the code's comments state.
\<close>

theorem ha_decode_step_log_of_mixture:
  assumes "0 < length enc0" and "rect bs enc0"
    and "dec_rnn M inp hidden = (h_t, hidden')" and "length h_t = bs"
    and "snd (attn M h_t (enc0, enc1) enc_mask) = attns" and "length attns = bs"
    and "list_all (\<lambda>row. length row = length enc0) attns"
    and "\<And>v. length (final_out M v) = V"
  shows "ha_decode_step M (enc0, enc1) enc_mask inp hidden =
         Inr (map (\<lambda>b. map (\<lambda>v. torch_log (\<Sum>s \<leftarrow> [0..<length enc0].
                                    attns ! b ! s * (exp (ha_logit M h_t enc0 b s ! v)
                                                      / (\<Sum>x \<leftarrow> ha_logit M h_t enc0 b s. exp x))))
                          [0..<V]) [0..<bs],
              hidden', attns)"
  unfolding ha_decode_step_def ha_mixture_form [OF assms]
  by (simp add: o_def)

theorem ha_decode_step_log_of_mixture_witness:
  "ha_decode_step toy_transducer ([[[0]]], []) [] [[1]] () =
     Inr ([[Finite (ln (1 / 2)), Finite (ln (1 / 2))]], (), [[1]])"
proof -
  have h: "0 < length [[[0 :: real]]]" "rect 1 [[[0 :: real]]]"
    "dec_rnn toy_transducer [[1]] () = ([[1]], ())" "length [[1 :: real]] = 1"
    "snd (attn toy_transducer [[1]] ([[[0]]], []) []) = [[1]]" "length [[1 :: real]] = 1"
    "list_all (\<lambda>row. length row = length [[[0 :: real]]]) [[1 :: real]]"
    "\<And>v. length (final_out toy_transducer v) = 2"
    by (simp_all add: rect_def toy_transducer_def)
  have u2: "[0..<2] = [0, 1]" by (simp add: upt_conv_Cons)
  have lg: "ha_logit toy_transducer [[1]] [[[0]]] 0 0 = [0, 0]"
    by (simp add: ha_logit_def toy_transducer_def)
  show ?thesis
    unfolding ha_decode_step_log_of_mixture [OF h]
    by (simp add: u2 lg torch_log_def)
qed

lemma softmax_nonneg: "x \<in> set (softmax xs) \<Longrightarrow> 0 \<le> x"
proof -
  assume "x \<in> set (softmax xs)"
  then obtain y where "x = exp y / sum_list (map exp xs)" by (auto simp: softmax_def)
  moreover have "0 \<le> sum_list (map exp xs)" by (rule sum_list_nonneg) auto
  ultimately show ?thesis by simp
qed

lemma sum_list_ge_member:
  "\<forall>x \<in> set xs. (c :: real) \<le> x \<Longrightarrow> 0 \<le> c \<Longrightarrow> xs \<noteq> [] \<Longrightarrow> c \<le> sum_list xs"
proof (induction xs)
  case Nil
  then show ?case by simp
next
  case (Cons a xs)
  have "0 \<le> sum_list xs" using Cons.prems by (intro sum_list_nonneg) force
  with Cons.prems show ?case by simp
qed

lemma transpose2_rect:
  assumes "m \<noteq> []" "rect bs m"
  shows "transpose2 m = map (\<lambda>j. map (\<lambda>r. r ! j) m) [0..<bs]"
  using size1_rect [OF assms] by (simp add: transpose2_def)

lemma floored_row:
  assumes "\<forall>x \<in> set mrow. 0 \<le> x"
  shows "\<forall>y \<in> set (map2 (\<lambda>p x. p * x + EPSILON) (softmax s) mrow). EPSILON \<le> y"
proof
  fix y assume "y \<in> set (map2 (\<lambda>p x. p * x + EPSILON) (softmax s) mrow)"
  then obtain p x where y: "y = p * x + EPSILON" and px: "(p, x) \<in> set (zip (softmax s) mrow)"
    by auto
  from px have "p \<in> set (softmax s)" "x \<in> set mrow" by (auto dest: set_zip_leftD set_zip_rightD)
  then have "0 \<le> p" "0 \<le> x" using assms softmax_nonneg by auto
  then have "0 \<le> p * x" by simp
  with y show "EPSILON \<le> y" by simp
qed

lemma hmm_floored_ok:
  assumes ne: "enc_mask \<noteq> []" and rm: "rect bs enc_mask"
    and ls: "length score = bs" and rs: "rect (length enc_mask) score"
    and nn: "list_all (list_all (\<lambda>x. 0 \<le> x)) enc_mask"
  shows "\<exists>fl. hmm_floored score enc_mask = Inr fl \<and>
              list_all (\<lambda>row. list_all (\<lambda>x. EPSILON \<le> x) row \<and> EPSILON \<le> sum_list row) fl"
proof -
  let ?S = "length enc_mask"
  let ?mt = "map (\<lambda>j. map (\<lambda>r. r ! j) enc_mask) [0..<bs]"
  let ?fl = "map2 (\<lambda>s m. map2 (\<lambda>p x. p * x + EPSILON) (softmax s) m) score ?mt"
  have s1: "size1 enc_mask = bs" using ne rm by (rule size1_rect)
  have fl: "hmm_floored score enc_mask = Inr ?fl"
    using ls rs s1 by (simp add: hmm_floored_def Let_def transpose2_rect [OF ne rm])
  have e0: "0 \<le> EPSILON" by (simp add: EPSILON_def)
  have "\<And>row. row \<in> set ?fl \<Longrightarrow> list_all (\<lambda>x. EPSILON \<le> x) row \<and> EPSILON \<le> sum_list row"
  proof -
    fix row assume "row \<in> set ?fl"
    then obtain s m where row: "row = map2 (\<lambda>p x. p * x + EPSILON) (softmax s) m"
      and sm: "(s, m) \<in> set (zip score ?mt)" by auto
    from sm have s: "s \<in> set score" and m: "m \<in> set ?mt"
      by (auto dest: set_zip_leftD set_zip_rightD)
    from s rs have lens: "length s = ?S" by (auto simp: rect_def list_all_iff)
    from m obtain j where j: "j < bs" "m = map (\<lambda>r. r ! j) enc_mask" by auto
    have mnn: "\<forall>x \<in> set m. 0 \<le> x"
    proof
      fix x assume "x \<in> set m"
      with j obtain r where r: "r \<in> set enc_mask" "x = r ! j" by auto
      with rm have "length r = bs" by (auto simp: rect_def list_all_iff)
      with j r have "x \<in> set r" by simp
      with nn r show "0 \<le> x" by (auto simp: list_all_iff)
    qed
    have lenm: "length m = ?S" using j by simp
    have all: "\<forall>y \<in> set row. EPSILON \<le> y" unfolding row using mnn by (rule floored_row)
    have "length row = ?S" using lens lenm by (simp add: row)
    with ne have "row \<noteq> []" by auto
    with all e0 have "EPSILON \<le> sum_list row" by (intro sum_list_ge_member) auto
    with all show "list_all (\<lambda>x. EPSILON \<le> x) row \<and> EPSILON \<le> sum_list row"
      by (simp add: list_all_iff)
  qed
  then have "list_all (\<lambda>row. list_all (\<lambda>x. EPSILON \<le> x) row \<and> EPSILON \<le> sum_list row) ?fl"
    by (simp add: list_all_iff)
  with fl show ?thesis by blast
qed

lemma hmm_transition_finite:
  assumes ne: "enc_mask \<noteq> []" and rm: "rect bs enc_mask"
    and ls: "length score = bs" and rs: "rect (length enc_mask) score"
    and nn: "list_all (list_all (\<lambda>x. 0 \<le> x)) enc_mask"
  shows "\<exists>t. hmm_transition score enc_mask = Inr t \<and> list_all (list_all (list_all is_finite)) t"
proof -
  from hmm_floored_ok [OF assms] obtain fl where fl: "hmm_floored score enc_mask = Inr fl"
    "list_all (\<lambda>row. list_all (\<lambda>x. EPSILON \<le> x) row \<and> EPSILON \<le> sum_list row) fl" by blast
  have e: "0 < EPSILON" by (simp add: EPSILON_def)
  let ?t = "map (\<lambda>row. replicate (length enc_mask) (map torch_log (map (\<lambda>x. x / sum_list row) row))) fl"
  have t: "hmm_transition score enc_mask = Inr ?t"
    by (simp add: hmm_transition_def hmm_normalised_def fl(1) o_def)
  have "\<And>row x. row \<in> set fl \<Longrightarrow> x \<in> set row \<Longrightarrow> is_finite (torch_log (x / sum_list row))"
  proof -
    fix row x assume "row \<in> set fl" "x \<in> set row"
    with fl(2) have "EPSILON \<le> x" "EPSILON \<le> sum_list row" by (auto simp: list_all_iff)
    with e have "0 < x / sum_list row" by simp
    then show "is_finite (torch_log (x / sum_list row))" by (simp add: torch_log_def is_finite_def)
  qed
  then have "list_all (list_all (list_all is_finite)) ?t"
    by (auto simp: list_all_iff)
  with t show ?thesis by blast
qed

lemma categorical_log_prob_form:
  assumes ne: "probs \<noteq> []" and rp: "rect C probs" and C: "0 < C"
    and vne: "val \<noteq> []" and rv: "rect (length probs) val"
    and ok: "list_all (list_all (valid_index C)) val"
  shows "categorical_log_prob probs val =
         Inr (map (\<lambda>row. map (\<lambda>b. torch_log (probs ! b ! norm_index C (row ! b) + EPSILON))
                            [0..<length probs]) val)"
proof -
  let ?n = "length probs"
  let ?pt = "map (\<lambda>j. map (\<lambda>r. r ! j) probs) [0..<C]"
  have pt: "transpose2 probs = ?pt" using ne rp by (rule transpose2_rect)
  have ptne: "?pt \<noteq> []" using C by simp
  have rpt: "rect ?n ?pt" by (simp add: rect_def list_all_iff)
  have n0: "0 < ?n" using ne by simp
  have lpt: "length ?pt = C" by simp
  have ok': "list_all (list_all (valid_index (length ?pt))) val" using ok by (simp only: lpt)
  have fg: "fancy_gather ?pt val =
        Inr (map (\<lambda>row. map (\<lambda>b. ?pt ! norm_index (length ?pt) (row ! b) ! b) [0..<?n]) val)"
    using ptne rpt vne rv n0 ok' by (rule fancy_gather_valid)
  have "map (\<lambda>row. map (\<lambda>b. ?pt ! norm_index (length ?pt) (row ! b) ! b) [0..<?n]) val =
        map (\<lambda>row. map (\<lambda>b. probs ! b ! norm_index C (row ! b)) [0..<?n]) val"
  proof (rule map_cong [OF refl], rule map_cong [OF refl])
    fix row b assume row: "row \<in> set val" and "b \<in> set [0..<?n]"
    then have b: "b < ?n" by simp
    from row rv have "length row = ?n" by (auto simp: rect_def list_all_iff)
    with b have "row ! b \<in> set row" by simp
    with ok row have "valid_index C (row ! b)" by (auto simp: list_all_iff)
    then have "norm_index C (row ! b) < C" by (rule norm_index_less)
    with b show "?pt ! norm_index (length ?pt) (row ! b) ! b = probs ! b ! norm_index C (row ! b)"
      by simp
  qed
  with fg show ?thesis by (simp add: categorical_log_prob_def pt o_def)
qed

lemma categorical_log_prob_finite:
  assumes ne: "probs \<noteq> []" and rp: "rect C probs" and C: "0 < C"
    and vne: "val \<noteq> []" and rv: "rect (length probs) val"
    and ok: "list_all (list_all (valid_index C)) val"
    and nn: "list_all (list_all (\<lambda>p. 0 \<le> p)) probs"
  shows "\<exists>r. categorical_log_prob probs val = Inr r \<and> list_all (list_all is_finite) r"
proof -
  have e: "0 < EPSILON" by (simp add: EPSILON_def)
  have "\<And>row b. row \<in> set val \<Longrightarrow> b < length probs \<Longrightarrow>
          is_finite (torch_log (probs ! b ! norm_index C (row ! b) + EPSILON))"
  proof -
    fix row b assume row: "row \<in> set val" and b: "b < length probs"
    from row rv have "length row = length probs" by (auto simp: rect_def list_all_iff)
    with b have "row ! b \<in> set row" by simp
    with ok row have "valid_index C (row ! b)" by (auto simp: list_all_iff)
    then have j: "norm_index C (row ! b) < C" by (rule norm_index_less)
    from b have pb: "probs ! b \<in> set probs" by simp
    with rp have "length (probs ! b) = C" by (auto simp: rect_def list_all_iff)
    with j have "probs ! b ! norm_index C (row ! b) \<in> set (probs ! b)" by simp
    with nn pb have "0 \<le> probs ! b ! norm_index C (row ! b)" by (auto simp: list_all_iff)
    with e have "0 < probs ! b ! norm_index C (row ! b) + EPSILON" by simp
    then show "is_finite (torch_log (probs ! b ! norm_index C (row ! b) + EPSILON))"
      by (simp add: torch_log_def is_finite_def)
  qed
  then have "list_all (list_all is_finite)
               (map (\<lambda>row. map (\<lambda>b. torch_log (probs ! b ! norm_index C (row ! b) + EPSILON))
                            [0..<length probs]) val)"
    by (simp add: list_all_iff)
  with categorical_log_prob_form [OF ne rp C vne rv ok] show ?thesis by simp
qed

lemma sharp_mixture:
  "ha_mixture sharp_transducer ([[[0]]], []) [] [[1]] () =
     Inr ([[1 / (1 + exp 100000000), exp 100000000 / (1 + exp 100000000)]], (), [[1]])"
proof -
  have h: "0 < length [[[0 :: real]]]" "rect 1 [[[0 :: real]]]"
    "dec_rnn sharp_transducer [[1]] () = ([[1]], ())" "length [[1 :: real]] = 1"
    "snd (attn sharp_transducer [[1]] ([[[0]]], []) []) = [[1]]" "length [[1 :: real]] = 1"
    "list_all (\<lambda>row. length row = length [[[0 :: real]]]) [[1 :: real]]"
    "\<And>v. length (final_out sharp_transducer v) = 2"
    by (simp_all add: rect_def toy_transducer_def sharp_transducer_def)
  have u2: "[0..<2] = [0, 1]" by (simp add: upt_conv_Cons)
  have lg: "ha_logit sharp_transducer [[1]] [[[0]]] 0 0 = [0, 100000000]"
    by (simp add: ha_logit_def toy_transducer_def sharp_transducer_def)
  show ?thesis
    unfolding ha_mixture_form [OF h]
    by (simp add: u2 lg)
qed

lemma sharp_below_floor: "1 / (1 + exp (100000000 :: real)) < EPSILON"
proof -
  have "1 + (100000000 :: real) \<le> exp 100000000" by (rule exp_ge_add_one_self)
  then have "(10000000 :: real) < 1 + exp 100000000" by simp
  then have "1 / (1 + exp (100000000 :: real)) < 1 / 10000000"
    by (intro divide_strict_left_mono) simp_all
  then show ?thesis by (simp add: EPSILON_def)
qed

section \<open>C3: where the EPSILON floor is added\<close>

text \<open>
  Claim C3, as amended. In \<open>HMMTransducer.decode_step\<close> the masked softmax gets EPSILON
  added before it is used as divisor and before the logarithm: for a non-negative mask
  over at least one source position every floored entry and every divisor is at least
  EPSILON, and every entry of the returned transition tensor is finite. In
  \<open>Categorical.log_prob\<close> EPSILON is added to the gathered probability before the
  logarithm, so for non-negative probabilities every result is finite.
  \<open>HardAttnTransducer.decode_step\<close> adds no floor: it returns the logarithm of the
  mixed probabilities as they are.
\<close>

theorem epsilon_floor_sites:
  "(enc_mask \<noteq> [] \<and> rect bs enc_mask \<and> length score = bs \<and> rect (length enc_mask) score \<and>
    list_all (list_all (\<lambda>x. 0 \<le> x)) enc_mask \<longrightarrow>
      (\<exists>fl. hmm_floored score enc_mask = Inr fl \<and>
            list_all (\<lambda>row. list_all (\<lambda>x. EPSILON \<le> x) row \<and> EPSILON \<le> sum_list row) fl) \<and>
      (\<exists>t. hmm_transition score enc_mask = Inr t \<and> list_all (list_all (list_all is_finite)) t)) \<and>
   (probs \<noteq> [] \<and> rect C probs \<and> 0 < C \<and> val \<noteq> [] \<and> rect (length probs) val \<and>
    list_all (list_all (valid_index C)) val \<and> list_all (list_all (\<lambda>p. 0 \<le> p)) probs \<longrightarrow>
      categorical_log_prob probs val =
        Inr (map (\<lambda>row. map (\<lambda>b. torch_log (probs ! b ! norm_index C (row ! b) + EPSILON))
                           [0..<length probs]) val) \<and>
      (\<exists>r. categorical_log_prob probs val = Inr r \<and> list_all (list_all is_finite) r)) \<and>
   ha_decode_step M enc_hs msk inp hidden =
     (case ha_mixture M enc_hs msk inp hidden of
        Inl e \<Rightarrow> Inl e
      | Inr (word_prob, hidden', attns) \<Rightarrow> Inr (map (map torch_log) word_prob, hidden', attns))"
proof (intro conjI impI)
  assume h: "enc_mask \<noteq> [] \<and> rect bs enc_mask \<and> length score = bs \<and> rect (length enc_mask) score \<and>
    list_all (list_all (\<lambda>x. 0 \<le> x)) enc_mask"
  then show "\<exists>fl. hmm_floored score enc_mask = Inr fl \<and>
            list_all (\<lambda>row. list_all (\<lambda>x. EPSILON \<le> x) row \<and> EPSILON \<le> sum_list row) fl"
    using hmm_floored_ok [of enc_mask bs score] by blast
  from h show "\<exists>t. hmm_transition score enc_mask = Inr t \<and> list_all (list_all (list_all is_finite)) t"
    using hmm_transition_finite [of enc_mask bs score] by blast
next
  assume h: "probs \<noteq> [] \<and> rect C probs \<and> 0 < C \<and> val \<noteq> [] \<and> rect (length probs) val \<and>
    list_all (list_all (valid_index C)) val \<and> list_all (list_all (\<lambda>p. 0 \<le> p)) probs"
  then show "categorical_log_prob probs val =
        Inr (map (\<lambda>row. map (\<lambda>b. torch_log (probs ! b ! norm_index C (row ! b) + EPSILON))
                           [0..<length probs]) val)"
    using categorical_log_prob_form [of probs C val] by blast
  from h show "\<exists>r. categorical_log_prob probs val = Inr r \<and> list_all (list_all is_finite) r"
    using categorical_log_prob_finite [of probs C val] by blast
next
  show "ha_decode_step M enc_hs msk inp hidden =
     (case ha_mixture M enc_hs msk inp hidden of
        Inl e \<Rightarrow> Inl e
      | Inr (word_prob, hidden', attns) \<Rightarrow> Inr (map (map torch_log) word_prob, hidden', attns))"
    by (simp add: ha_decode_step_def)
qed

theorem epsilon_floor_sites_witness:
  "(\<exists>t. hmm_transition [[0, 0]] [[1], [0]] = Inr t \<and> list_all (list_all (list_all is_finite)) t) \<and>
   categorical_log_prob [[1, 0]] [[1]] = Inr [[Finite (ln EPSILON)]]"
proof -
  have a: "[[1], [0 :: real]] \<noteq> [] \<and> rect 1 [[1], [0 :: real]] \<and> length [[0, 0 :: real]] = 1 \<and>
           rect (length [[1], [0 :: real]]) [[0, 0 :: real]] \<and>
           list_all (list_all (\<lambda>x. 0 \<le> x)) [[1], [0 :: real]]"
    by (simp add: rect_def)
  have b: "[[1, 0 :: real]] \<noteq> [] \<and> rect 2 [[1, 0 :: real]] \<and> 0 < (2 :: nat) \<and> [[1 :: int]] \<noteq> [] \<and>
           rect (length [[1, 0 :: real]]) [[1 :: int]] \<and>
           list_all (list_all (valid_index 2)) [[1]] \<and>
           list_all (list_all (\<lambda>p. 0 \<le> p)) [[1, 0 :: real]]"
    by (simp add: rect_def valid_index_def)
  note t = epsilon_floor_sites [where enc_mask = "[[1], [0]]" and bs = 1 and score = "[[0, 0]]"
      and probs = "[[1, 0]]" and C = 2 and val = "[[1]]"]
  from t [THEN conjunct1] a have 1: "\<exists>t. hmm_transition [[0, 0]] [[1], [0]] = Inr t \<and>
      list_all (list_all (list_all is_finite)) t"
    by blast
  from t [THEN conjunct2, THEN conjunct1] b have "categorical_log_prob [[1, 0]] [[1]] =
        Inr (map (\<lambda>row. map (\<lambda>b. torch_log ([[1, 0]] ! b ! norm_index 2 (row ! b) + EPSILON))
                           [0..<length [[1, 0 :: real]]]) [[1]])"
    by blast
  then have 2: "categorical_log_prob [[1, 0]] [[1]] = Inr [[Finite (ln EPSILON)]]"
    using EPSILON_pos by (simp add: norm_index_def torch_log_def)
  from 1 2 show ?thesis by blast
qed

text \<open>
  The claim as stated fails at the hard-attention step: with one source position,
  attention weight 1 and final scores 0 and 100000000, the first mixed probability,
  which is the argument of the logarithm, is below EPSILON, so no floor of EPSILON has
  been added to it.
\<close>

theorem hard_attn_no_floor_counterexample:
  "ha_mixture sharp_transducer ([[[0]]], []) [] [[1]] () =
     Inr ([[1 / (1 + exp 100000000), exp 100000000 / (1 + exp 100000000)]], (), [[1]]) \<and>
   1 / (1 + exp (100000000 :: real)) < EPSILON"
  using sharp_mixture sharp_below_floor by simp

lemma map2_map_upt:
  "map2 f (map g [0..<n]) (map h [0..<n]) = map (\<lambda>i. f (g i) (h i)) [0..<n]"
  by (rule nth_equalityI) simp_all

lemma list_as_map_nth: "length xs = n \<Longrightarrow> xs = map (\<lambda>i. xs ! i) [0..<n]"
  by (rule nth_equalityI) simp_all

lemma shape3_initial_form:
  assumes "has_shape3 bs 1 ns t"
  shows "t = map (\<lambda>b. [map (\<lambda>j. t ! b ! 0 ! j) [0..<ns]]) [0..<bs]"
proof (rule nth_equalityI)
  show "length t = length (map (\<lambda>b. [map (\<lambda>j. t ! b ! 0 ! j) [0..<ns]]) [0..<bs])"
    using assms by (simp add: has_shape3_def)
next
  fix b assume "b < length t"
  then have b: "b < bs" "t ! b \<in> set t" using assms by (simp_all add: has_shape3_def)
  with assms have s: "has_shape2 1 ns (t ! b)" by (auto simp: has_shape3_def list_all_iff)
  then obtain r where r: "t ! b = [r]" "length r = ns"
    by (cases "t ! b") (auto simp: has_shape2_def)
  then have "t ! b = [map (\<lambda>j. t ! b ! 0 ! j) [0..<ns]]"
    using list_as_map_nth [of r ns] by simp
  with b show "t ! b = map (\<lambda>b. [map (\<lambda>j. t ! b ! 0 ! j) [0..<ns]]) [0..<bs] ! b" by simp
qed

lemma add3_form:
  "add3 (map (\<lambda>b. [map (f b) [0..<ns]]) [0..<bs]) (map (\<lambda>b. [map (g b) [0..<ns]]) [0..<bs]) =
   map (\<lambda>b. [map (\<lambda>j. f b j + g b j) [0..<ns]]) [0..<bs]"
  by (simp add: add3_def map2_map_upt)

lemma emiss_form:
  assumes "length idx = bs" "list_all (\<lambda>i. 0 \<le> i \<and> i < int (hmm_V H)) idx"
  shows "emiss H t idx ign =
         Inr (map (\<lambda>b. [map (\<lambda>s. if ign = Some (idx ! b) then 0
                                   else emission H ! t ! b ! s ! nat (idx ! b)) [0..<hmm_ns H]])
                  [0..<bs])"
proof (cases ign)
  case None
  with assms show ?thesis by (simp add: emiss_def Let_def)
next
  case (Some g)
  with assms show ?thesis by (auto simp: emiss_def Let_def)
qed

lemma emiss_seq:
  assumes t: "t < length seq" and r: "rect bs seq" and ok: "tokens_ok H seq"
  shows "emiss H t (seq ! t) ign =
         Inr (map (\<lambda>b. [map (\<lambda>s. emiss_at H seq ign t b s) [0..<hmm_ns H]]) [0..<bs])"
proof -
  from t have m: "seq ! t \<in> set seq" by simp
  with r have l: "length (seq ! t) = bs" by (auto simp: rect_def list_all_iff)
  from m ok have v: "list_all (\<lambda>i. 0 \<le> i \<and> i < int (hmm_V H)) (seq ! t)"
    by (auto simp: tokens_ok_def list_all_iff)
  show ?thesis unfolding emiss_form [OF l v] by (simp add: emiss_at_def)
qed

lemma size1_shape2: "has_shape2 n n m \<Longrightarrow> size1 m = n"
  by (cases m) (auto simp: has_shape2_def size1_def)

lemma add_transposed_form:
  assumes "has_shape3 bs ns ns tr"
  shows "add_transposed (map (\<lambda>b. [map (f b) [0..<ns]]) [0..<bs]) tr =
         map (\<lambda>b. map (\<lambda>j. map (\<lambda>i. f b i + tr ! b ! i ! j) [0..<ns]) [0..<ns]) [0..<bs]"
proof -
  have ltr: "length tr = bs" using assms by (simp add: has_shape3_def)
  have tr: "tr = map (\<lambda>b. tr ! b) [0..<bs]" using ltr by (rule list_as_map_nth)
  have sh: "\<And>b. b < bs \<Longrightarrow> has_shape2 ns ns (tr ! b)"
    using assms by (auto simp: has_shape3_def list_all_iff)
  have "add_transposed (map (\<lambda>b. [map (f b) [0..<ns]]) [0..<bs]) tr =
        add_transposed (map (\<lambda>b. [map (f b) [0..<ns]]) [0..<bs]) (map (\<lambda>b. tr ! b) [0..<bs])"
    using tr by simp
  also have "\<dots> = map (\<lambda>b. map (\<lambda>j. map2 (+) (map (f b) [0..<ns]) (map (\<lambda>row. row ! j) (tr ! b)))
                               [0..<size1 (tr ! b)]) [0..<bs]"
    by (simp add: add_transposed_def map2_map_upt)
  also have "\<dots> = map (\<lambda>b. map (\<lambda>j. map (\<lambda>i. f b i + tr ! b ! i ! j) [0..<ns]) [0..<ns]) [0..<bs]"
  proof (rule map_cong [OF refl])
    fix b assume "b \<in> set [0..<bs]"
    then have b: "b < bs" by simp
    have s1: "size1 (tr ! b) = ns" using sh [OF b] by (rule size1_shape2)
    have l: "length (tr ! b) = ns" using sh [OF b] by (simp add: has_shape2_def)
    have col: "\<And>j. map (\<lambda>row. row ! j) (tr ! b) = map (\<lambda>i. tr ! b ! i ! j) [0..<ns]"
      using l by (intro nth_equalityI) simp_all
    show "map (\<lambda>j. map2 (+) (map (f b) [0..<ns]) (map (\<lambda>row. row ! j) (tr ! b))) [0..<size1 (tr ! b)]
          = map (\<lambda>j. map (\<lambda>i. f b i + tr ! b ! i ! j) [0..<ns]) [0..<ns]"
      unfolding s1 col by (simp add: map2_map_upt)
  qed
  finally show ?thesis .
qed

lemma lse_transposed_form:
  "lse_transposed (map (\<lambda>b. map (\<lambda>j. map (\<lambda>i. g b j i) [0..<ns]) [0..<ns]) [0..<bs]) =
   map (\<lambda>b. [map (\<lambda>j. ln (\<Sum>i \<leftarrow> [0..<ns]. exp (g b j i))) [0..<ns]]) [0..<bs]"
  by (simp add: lse_transposed_def logsumexp_def o_def)

lemma p_x_step:
  assumes tr: "has_shape3 bs (hmm_ns H) (hmm_ns H) (transition H ! t)"
    and t: "Suc t < length seq" and r: "rect bs seq" and ok: "tokens_ok H seq"
  shows "p_x_loop H seq ign (t # ts) (fwd_tensor H seq ign bs t) =
         p_x_loop H seq ign ts (fwd_tensor H seq ign bs (Suc t))"
proof -
  let ?ns = "hmm_ns H"
  have a: "add_transposed (fwd_tensor H seq ign bs t) (transition H ! t) =
           map (\<lambda>b. map (\<lambda>j. map (\<lambda>i. fwd_spec H seq ign t b i + transition H ! t ! b ! i ! j)
                                   [0..<?ns]) [0..<?ns]) [0..<bs]"
    unfolding fwd_tensor_def using tr by (rule add_transposed_form)
  have l: "lse_transposed (add_transposed (fwd_tensor H seq ign bs t) (transition H ! t)) =
           map (\<lambda>b. [map (\<lambda>j. ln (\<Sum>i \<leftarrow> [0..<?ns].
                        exp (fwd_spec H seq ign t b i + transition H ! t ! b ! i ! j))) [0..<?ns]])
               [0..<bs]"
    unfolding a by (rule lse_transposed_form)
  have e: "emiss H (Suc t) (seq ! Suc t) ign =
           Inr (map (\<lambda>b. [map (\<lambda>s. emiss_at H seq ign (Suc t) b s) [0..<?ns]]) [0..<bs])"
    using t r ok by (rule emiss_seq)
  have "p_x_loop H seq ign (t # ts) (fwd_tensor H seq ign bs t) =
        p_x_loop H seq ign ts
          (map (\<lambda>b. [map (\<lambda>j. ln (\<Sum>i \<leftarrow> [0..<?ns].
                        exp (fwd_spec H seq ign t b i + transition H ! t ! b ! i ! j))
                      + emiss_at H seq ign (Suc t) b j) [0..<?ns]]) [0..<bs])"
    by (simp add: Let_def l e add3_form)
  also have "\<dots> = p_x_loop H seq ign ts (fwd_tensor H seq ign bs (Suc t))"
    by (simp add: fwd_tensor_def)
  finally show ?thesis .
qed

lemma p_x_loop_spec:
  assumes tr: "\<And>t. t < n \<Longrightarrow> has_shape3 bs (hmm_ns H) (hmm_ns H) (transition H ! t)"
    and len: "length seq = Suc n" and r: "rect bs seq" and ok: "tokens_ok H seq"
  shows "k \<le> n \<Longrightarrow>
         p_x_loop H seq ign [k..<n] (fwd_tensor H seq ign bs k) = Inr (fwd_tensor H seq ign bs n)"
proof (induction "n - k" arbitrary: k)
  case 0
  then have "k = n" by simp
  then show ?case by simp
next
  case (Suc d)
  then have kn: "k < n" by simp
  then have upt: "[k..<n] = k # [Suc k..<n]" by (simp add: upt_conv_Cons)
  have st: "Suc k < length seq" using kn len by simp
  have "p_x_loop H seq ign (k # [Suc k..<n]) (fwd_tensor H seq ign bs k) =
        p_x_loop H seq ign [Suc k..<n] (fwd_tensor H seq ign bs (Suc k))"
    using tr [OF kn] st r ok by (rule p_x_step)
  also have "\<dots> = Inr (fwd_tensor H seq ign bs n)"
    using Suc.hyps(1) [of "Suc k"] Suc.hyps(2) kn by simp
  finally show ?case unfolding upt .
qed

lemma p_x_spec:
  assumes ne: "seq \<noteq> []" and r: "rect bs seq" and ok: "tokens_ok H seq"
    and si: "has_shape3 bs 1 (hmm_ns H) (initial H)"
    and st: "has_shape4 (length seq - 1) bs (hmm_ns H) (hmm_ns H) (transition H)"
    and se: "has_shape4 (length seq) bs (hmm_ns H) (hmm_V H) (emission H)"
  shows "p_x H seq ign = Inr (fwd_tensor H seq ign bs (length seq - 1))"
proof -
  let ?n = "length seq - 1"
  from ne have len: "length seq = Suc ?n" by (cases seq) simp_all
  have bs: "size1 seq = bs" using ne r by (rule size1_rect)
  have tr: "\<And>t. t < ?n \<Longrightarrow> has_shape3 bs (hmm_ns H) (hmm_ns H) (transition H ! t)"
    using st by (auto simp: has_shape4_def list_all_iff)
  have e0: "emiss H 0 (seq ! 0) ign =
            Inr (map (\<lambda>b. [map (\<lambda>s. emiss_at H seq ign 0 b s) [0..<hmm_ns H]]) [0..<bs])"
    using ne r ok by (intro emiss_seq) simp_all
  have i0: "add3 (initial H) (map (\<lambda>b. [map (\<lambda>s. emiss_at H seq ign 0 b s) [0..<hmm_ns H]]) [0..<bs])
            = fwd_tensor H seq ign bs 0"
    by (subst shape3_initial_form [OF si]) (simp add: add3_form fwd_tensor_def)
  have loop: "p_x_loop H seq ign [0..<?n] (fwd_tensor H seq ign bs 0) = Inr (fwd_tensor H seq ign bs ?n)"
    using p_x_loop_spec [OF tr len r ok, of 0 ign] by simp
  show ?thesis
    using ne si st se loop by (simp add: p_x_def Let_def bs e0 i0)
qed

section \<open>C2: p\_x is the forward recurrence, not marginalised over the final state\<close>

text \<open>
  Claim C2. On an observed sequence of length \<open>T \<ge> 1\<close> whose tokens lie in the vocabulary,
  and with tensors of the asserted shapes, \<open>HMM.p_x\<close> returns the tensor of shape
  (batch, 1, states) whose entry (b, 0, j) is \<open>fwd\<^sub>T\<^sub>-\<^sub>1(b, j)\<close>, where
  \<open>fwd\<^sub>0(b, j) = initial(b, j) + emiss(0)(b, j)\<close> and
  \<open>fwd\<^sub>t\<^sub>+\<^sub>1(b, j) = ln (\<Sum>i. exp (fwd\<^sub>t(b, i) + transition\<^sub>t(b, i, j))) + emiss(t+1)(b, j)\<close>,
  the emission term being the log-probability of the observed token in state \<open>j\<close>, or 0
  when the token equals \<open>ignore_index\<close>. One value per final state is returned: no sum
  over the final state is taken.
\<close>

theorem p_x_forward_algorithm:
  assumes "seq \<noteq> []" and "rect bs seq" and "tokens_ok H seq"
    and "has_shape3 bs 1 (hmm_ns H) (initial H)"
    and "has_shape4 (length seq - 1) bs (hmm_ns H) (hmm_ns H) (transition H)"
    and "has_shape4 (length seq) bs (hmm_ns H) (hmm_V H) (emission H)"
  shows "p_x H seq ign =
           Inr (map (\<lambda>b. [map (\<lambda>j. fwd_spec H seq ign (length seq - 1) b j) [0..<hmm_ns H]])
                    [0..<bs]) \<and>
         fwd_spec H seq ign 0 b j = initial H ! b ! 0 ! j + emiss_at H seq ign 0 b j \<and>
         fwd_spec H seq ign (Suc t) b j =
           ln (\<Sum>i \<leftarrow> [0..<hmm_ns H]. exp (fwd_spec H seq ign t b i + transition H ! t ! b ! i ! j))
             + emiss_at H seq ign (Suc t) b j \<and>
         emiss_at H seq ign t b j =
           (if ign = Some (seq ! t ! b) then 0 else emission H ! t ! b ! j ! nat (seq ! t ! b))"
  using p_x_spec [OF assms, of ign]
  by (simp add: fwd_tensor_def emiss_at_def)

theorem p_x_forward_algorithm_witness:
  "p_x toy_hmm [[0], [1]] None = Inr [[[ln 2, ln 2]]] \<and>
   p_x single_step_hmm [[0]] None = Inr [[[ln (1 / 2) + ln (9 / 10), ln (1 / 2) + ln (1 / 10)]]]"
proof -
  have u2: "[0..<2] = [0, 1]" by (simp add: upt_conv_Cons)
  have a: "[[0], [1 :: int]] \<noteq> []" "rect 1 [[0], [1 :: int]]" "tokens_ok toy_hmm [[0], [1]]"
    "has_shape3 1 1 (hmm_ns toy_hmm) (initial toy_hmm)"
    "has_shape4 (length [[0], [1 :: int]] - 1) 1 (hmm_ns toy_hmm) (hmm_ns toy_hmm) (transition toy_hmm)"
    "has_shape4 (length [[0], [1 :: int]]) 1 (hmm_ns toy_hmm) (hmm_V toy_hmm) (emission toy_hmm)"
    by (simp_all add: rect_def tokens_ok_def toy_hmm_def has_shape2_def has_shape3_def has_shape4_def)
  have b: "[[0 :: int]] \<noteq> []" "rect 1 [[0 :: int]]" "tokens_ok single_step_hmm [[0]]"
    "has_shape3 1 1 (hmm_ns single_step_hmm) (initial single_step_hmm)"
    "has_shape4 (length [[0 :: int]] - 1) 1 (hmm_ns single_step_hmm) (hmm_ns single_step_hmm)
       (transition single_step_hmm)"
    "has_shape4 (length [[0 :: int]]) 1 (hmm_ns single_step_hmm) (hmm_V single_step_hmm)
       (emission single_step_hmm)"
    by (simp_all add: rect_def tokens_ok_def single_step_hmm_def has_shape2_def has_shape3_def
        has_shape4_def)
  have 1: "p_x toy_hmm [[0], [1]] None = Inr [[[ln 2, ln 2]]]"
    using p_x_forward_algorithm [OF a, of None]
    by (simp add: toy_hmm_def u2 emiss_at_def)
  have 2: "p_x single_step_hmm [[0]] None =
           Inr [[[ln (1 / 2) + ln (9 / 10), ln (1 / 2) + ln (1 / 10)]]]"
    using p_x_forward_algorithm [OF b, of None]
    by (simp add: single_step_hmm_def u2 emiss_at_def)
  from 1 2 show ?thesis by simp
qed

end
